theory Spec2Isabelle
  imports Main "HOL-Library.Word"
begin

section \<open>The resolver's targets (target.c of the murphy resolver)\<close>

subsection \<open>Data model\<close>

text \<open>
  Stamps are \<open>uint32_t\<close> values: the cached \<open>fact_stamps\<close> of a target, the scratch
  buffer \<open>stamps\<close> of \<open>update_target\<close>, and the stamp of a target itself. Comparison of
  words is the unsigned comparison of C.
\<close>

type_synonym u32 = "32 word"

text \<open>A script as \<open>dump_targets\<close> reads it: the interpreter's name and the source text.\<close>

record scriptlet =
  interpreter :: string
  source :: string

text \<open>
  \<open>target_t\<close>. The two index arrays \<open>update_facts\<close> and \<open>update_targets\<close> end with a
  negative sentinel in C and every loop over them runs \<open>for (i = 0; (id = a[i]) >= 0; i++)\<close>;
  the model keeps the entries in front of the sentinel, as a list of naturals.
  \<open>update_facts\<close> may be \<open>NULL\<close> (the code tests it), which is \<open>None\<close>. The update
  functions read \<open>update_targets\<close> without a test, so the model carries the array itself.
  \<open>ndepend\<close> is the length of \<open>depends\<close>.
\<close>

record target =
  name :: string
  depends :: "string list"
  update_facts :: "nat list option"
  update_targets :: "nat list"
  fact_stamps :: "u32 list"
  script :: "scriptlet option"
  stamp :: u32

text \<open>
  \<open>mrp_resolver_t\<close>, as far as target.c uses it: the target array (\<open>ntarget\<close> is its
  length), the names of the facts (\<open>nfact\<close> is their number) and the auto-update
  target, a pointer into the target array, kept as an index.
\<close>

record resolver =
  targets :: "target list"
  facts :: "string list"
  auto_update :: "nat option"

definition ntarget :: "resolver \<Rightarrow> nat" where
  "ntarget r = length (targets r)"

definition nfact :: "resolver \<Rightarrow> nat" where
  "nfact r = length (facts r)"

text \<open>
  Modelled from the spec: the macros \<open>TRUE\<close> and \<open>FALSE\<close> and the error numbers come
  from headers that are not among the sources. The specification has a pass in which
  nothing ran return a positive status and has \<open>\<le> 0\<close> mean failure; the values are
  those of C truth values and of \<open>errno.h\<close>.
\<close>

definition TRUE :: int where
  "TRUE = 1"

definition FALSE :: int where
  "FALSE = 0"

definition EINVAL :: int where
  "EINVAL = 22"

definition ENOENT :: int where
  "ENOENT = 2"

subsection \<open>What target.c calls but does not define\<close>

text \<open>
  The fact store, its transactions and the script interpreter live outside target.c.
  They are parameters of the model, over a state \<open>'w\<close> of everything outside the target
  array: \<open>fact_stamp\<close> reads the current stamp of a fact, \<open>start_transaction\<close> gives a
  handle or \<open>MQI_HANDLE_INVALID\<close> (\<open>None\<close>), \<open>commit_transaction\<close> may fail,
  \<open>rollback_transaction\<close> returns nothing, \<open>mrp_execute_script\<close> returns a status, and
  \<open>errno\<close> is read after a failed call. A script is handed \<open>r->ctbl\<close>, not the resolver,
  so it changes \<open>'w\<close> only.
\<close>

type_synonym handle = nat

record 'w extern =
  fact_stamp :: "'w \<Rightarrow> nat \<Rightarrow> u32"
  start_transaction :: "'w \<Rightarrow> handle option \<times> 'w"
  commit_transaction :: "handle \<Rightarrow> 'w \<Rightarrow> bool \<times> 'w"
  rollback_transaction :: "handle \<Rightarrow> 'w \<Rightarrow> 'w"
  mrp_execute_script :: "scriptlet option \<Rightarrow> 'w \<Rightarrow> int \<times> 'w"
  errno :: "'w \<Rightarrow> int"

text \<open>
  The calls that leave target.c, in the order they are made. An execution is recorded with
  the index of the target whose script ran, the status it returned and the state it left.
\<close>

datatype 'w event =
    TxStart "handle option"
  | Exec nat int 'w
  | TxCommit bool
  | TxRollback

subsection \<open>Staleness\<close>

text \<open>
  \<open>older_than_facts\<close>, lines 139-162. The loop compares \<open>fact_stamp(r, id)\<close> with
  \<open>t->fact_stamps[i]\<close> and returns at the first newer fact.
\<close>

fun older_than_facts_loop :: "'w extern \<Rightarrow> 'w \<Rightarrow> u32 list \<Rightarrow> nat \<Rightarrow> nat list \<Rightarrow> bool" where
  "older_than_facts_loop ext w fs i [] = False"
| "older_than_facts_loop ext w fs i (fid # fids) =
     (if fs ! i < fact_stamp ext w fid then True
      else older_than_facts_loop ext w fs (Suc i) fids)"

definition older_than_facts :: "'w extern \<Rightarrow> 'w \<Rightarrow> target \<Rightarrow> bool" where
  "older_than_facts ext w t =
     (case update_facts t of
        None \<Rightarrow> True
      | Some uf \<Rightarrow> older_than_facts_loop ext w (fact_stamps t) 0 uf)"

text \<open>
  \<open>older_than_targets\<close>, lines 165-185: some target of \<open>t->update_targets\<close> has a stamp
  above the stamp of \<open>t\<close>.
\<close>

fun older_than_targets_loop :: "resolver \<Rightarrow> target \<Rightarrow> nat list \<Rightarrow> bool" where
  "older_than_targets_loop r t [] = False"
| "older_than_targets_loop r t (did # dids) =
     (if stamp t < stamp (targets r ! did) then True
      else older_than_targets_loop r t dids)"

definition older_than_targets :: "resolver \<Rightarrow> target \<Rightarrow> bool" where
  "older_than_targets r t = older_than_targets_loop r t (update_targets t)"

subsection \<open>The checkpoint of the fact stamps\<close>

text \<open>
  The buffer of \<open>update_target\<close> is \<open>uint32_t stamps[r->ntarget * r->nfact]\<close>; target
  \<open>id\<close> owns the slots from \<open>id * r->nfact\<close> on. The model keeps it as a store from
  slot to value, so that two targets writing the same slot are seen.

  \<open>save_fact_stamps\<close>, lines 188-199: slot \<open>idx\<close> and position \<open>i\<close> advance together over
  \<open>t->update_facts\<close>. The target is given by its index \<open>t - r->targets\<close>.
\<close>

type_synonym stamp_buf = "nat \<Rightarrow> u32"

fun save_fact_stamps_loop :: "u32 list \<Rightarrow> nat \<Rightarrow> nat \<Rightarrow> nat list \<Rightarrow> stamp_buf \<Rightarrow> stamp_buf" where
  "save_fact_stamps_loop fs idx i [] buf = buf"
| "save_fact_stamps_loop fs idx i (fid # fids) buf =
     save_fact_stamps_loop fs (Suc idx) (Suc i) fids (buf(idx := fs ! i))"

definition save_fact_stamps :: "resolver \<Rightarrow> nat \<Rightarrow> stamp_buf \<Rightarrow> stamp_buf" where
  "save_fact_stamps r tid buf =
     (case update_facts (targets r ! tid) of
        None \<Rightarrow> buf
      | Some uf \<Rightarrow>
          save_fact_stamps_loop (fact_stamps (targets r ! tid)) (tid * nfact r) 0 uf buf)"

text \<open>The write \<open>t->fact_stamps[...] = ...\<close> through the pointer into \<open>r->targets\<close>.\<close>

definition set_fact_stamps :: "resolver \<Rightarrow> nat \<Rightarrow> u32 list \<Rightarrow> resolver" where
  "set_fact_stamps r tid fs =
     r\<lparr>targets := (targets r)[tid := (targets r ! tid)\<lparr>fact_stamps := fs\<rparr>]\<rparr>"

text \<open>\<open>restore_fact_stamps\<close>, lines 202-213: the same walk, copying back.\<close>

fun restore_fact_stamps_loop :: "stamp_buf \<Rightarrow> nat \<Rightarrow> nat \<Rightarrow> nat list \<Rightarrow> u32 list \<Rightarrow> u32 list" where
  "restore_fact_stamps_loop buf idx i [] fs = fs"
| "restore_fact_stamps_loop buf idx i (fid # fids) fs =
     restore_fact_stamps_loop buf (Suc idx) (Suc i) fids (fs[i := buf idx])"

definition restore_fact_stamps :: "resolver \<Rightarrow> nat \<Rightarrow> stamp_buf \<Rightarrow> resolver" where
  "restore_fact_stamps r tid buf =
     (case update_facts (targets r ! tid) of
        None \<Rightarrow> r
      | Some uf \<Rightarrow>
          set_fact_stamps r tid
            (restore_fact_stamps_loop buf (tid * nfact r) 0 uf (fact_stamps (targets r ! tid))))"

text \<open>\<open>save_target_stamps\<close>, lines 216-225, over \<open>t->update_targets\<close>.\<close>

fun save_target_stamps_loop :: "resolver \<Rightarrow> nat list \<Rightarrow> stamp_buf \<Rightarrow> stamp_buf" where
  "save_target_stamps_loop r [] buf = buf"
| "save_target_stamps_loop r (did # dids) buf =
     save_target_stamps_loop r dids (save_fact_stamps r did buf)"

definition save_target_stamps :: "resolver \<Rightarrow> nat \<Rightarrow> stamp_buf \<Rightarrow> stamp_buf" where
  "save_target_stamps r tid buf =
     save_target_stamps_loop r (update_targets (targets r ! tid)) buf"

text \<open>\<open>restore_target_stamps\<close>, lines 228-237.\<close>

fun restore_target_stamps_loop :: "resolver \<Rightarrow> nat list \<Rightarrow> stamp_buf \<Rightarrow> resolver" where
  "restore_target_stamps_loop r [] buf = r"
| "restore_target_stamps_loop r (did # dids) buf =
     restore_target_stamps_loop (restore_fact_stamps r did buf) dids buf"

definition restore_target_stamps :: "resolver \<Rightarrow> nat \<Rightarrow> stamp_buf \<Rightarrow> resolver" where
  "restore_target_stamps r tid buf =
     restore_target_stamps_loop r (update_targets (targets r ! tid)) buf"

text \<open>
  \<open>update_target_stamps\<close>, lines 240-247: every tracked position takes the current stamp
  of its fact.
\<close>

fun update_target_stamps_loop :: "'w extern \<Rightarrow> 'w \<Rightarrow> nat \<Rightarrow> nat list \<Rightarrow> u32 list \<Rightarrow> u32 list" where
  "update_target_stamps_loop ext w i [] fs = fs"
| "update_target_stamps_loop ext w i (fid # fids) fs =
     update_target_stamps_loop ext w (Suc i) fids (fs[i := fact_stamp ext w fid])"

definition update_target_stamps :: "'w extern \<Rightarrow> 'w \<Rightarrow> resolver \<Rightarrow> nat \<Rightarrow> resolver" where
  "update_target_stamps ext w r tid =
     (case update_facts (targets r ! tid) of
        None \<Rightarrow> r
      | Some uf \<Rightarrow>
          set_fact_stamps r tid (update_target_stamps_loop ext w 0 uf (fact_stamps (targets r ! tid))))"

subsection \<open>One update request\<close>

text \<open>
  What \<open>update_target\<close> holds while it runs and hands back: the status, the resolver, the
  state outside and the calls made so far.
\<close>

record 'w run =
  status :: int
  res :: resolver
  world :: 'w
  calls :: "'w event list"

text \<open>
  The loop of lines 271-287 over \<open>t->update_targets\<close>; the local \<open>needs_update\<close> travels
  beside the run. \<open>dep == t\<close> compares pointers into the same array, that is indices. The
  first \<open>break\<close> leaves at the subject's own entry, the second at a status \<open>\<le> 0\<close>.
\<close>

fun walk :: "'w extern \<Rightarrow> nat \<Rightarrow> nat list \<Rightarrow> bool \<times> 'w run \<Rightarrow> bool \<times> 'w run" where
  "walk ext tid [] (nu, p) = (nu, p)"
| "walk ext tid (did # dids) (nu, p) =
     (if did = tid then (nu, p)
      else if older_than_facts ext (world p) (targets (res p) ! did)
              \<or> older_than_targets (res p) (targets (res p) ! did)
      then (case mrp_execute_script ext (script (targets (res p) ! did)) (world p) of
              (s, w') \<Rightarrow>
                if s \<le> 0
                then (True, p\<lparr>status := s, world := w', calls := calls p @ [Exec did s w']\<rparr>)
                else walk ext tid dids
                       (True, p\<lparr>status := s, res := update_target_stamps ext w' (res p) did,
                                world := w', calls := calls p @ [Exec did s w']\<rparr>))
      else walk ext tid dids (nu, p))"

text \<open>Lines 289-294: the subject's own script.\<close>

definition run_own :: "'w extern \<Rightarrow> nat \<Rightarrow> bool \<times> 'w run \<Rightarrow> 'w run" where
  "run_own ext tid np =
     (case np of (nu, p) \<Rightarrow>
        if nu \<and> 0 < status p
        then (case mrp_execute_script ext (script (targets (res p) ! tid)) (world p) of
                (s, w') \<Rightarrow>
                  if 0 < s
                  then p\<lparr>status := s, res := update_target_stamps ext w' (res p) tid,
                         world := w', calls := calls p @ [Exec tid s w']\<rparr>
                  else p\<lparr>status := s, world := w', calls := calls p @ [Exec tid s w']\<rparr>)
        else p)"

text \<open>Lines 268-294 together, from \<open>status = TRUE\<close> to the end of the subject's script.\<close>

definition update_pass :: "'w extern \<Rightarrow> resolver \<Rightarrow> 'w \<Rightarrow> nat \<Rightarrow> 'w run" where
  "update_pass ext r w tid =
     run_own ext tid
       (walk ext tid (update_targets (targets r ! tid))
          (older_than_facts ext w (targets r ! tid),
           \<lparr>status = TRUE, res = r, world = w, calls = []\<rparr>))"

text \<open>Lines 296-308: roll back and restore, or commit, restoring when the commit fails.\<close>

definition errno_status :: "'w extern \<Rightarrow> 'w \<Rightarrow> int" where
  "errno_status ext w = (if errno ext w \<noteq> 0 then - errno ext w else - EINVAL)"

definition resolve :: "'w extern \<Rightarrow> handle \<Rightarrow> stamp_buf \<Rightarrow> nat \<Rightarrow> 'w run \<Rightarrow> 'w run" where
  "resolve ext tx buf tid p =
     (if status p \<le> 0
      then p\<lparr>res := restore_target_stamps (res p) tid buf,
             world := rollback_transaction ext tx (world p),
             calls := calls p @ [TxRollback]\<rparr>
      else (case commit_transaction ext tx (world p) of
              (ok, w') \<Rightarrow>
                if \<not> ok
                then p\<lparr>status := errno_status ext w',
                       res := restore_target_stamps (res p) tid buf,
                       world := w', calls := calls p @ [TxCommit False]\<rparr>
                else p\<lparr>world := w', calls := calls p @ [TxCommit True]\<rparr>))"

text \<open>
  \<open>update_target\<close>, lines 250-311. \<open>stamps\<close> is what the uninitialised buffer holds on
  entry. The call of \<open>start_transaction\<close> is the first of the calls.
\<close>

definition update_target :: "'w extern \<Rightarrow> stamp_buf \<Rightarrow> resolver \<Rightarrow> 'w \<Rightarrow> nat \<Rightarrow> 'w run" where
  "update_target ext stamps r w tid =
     (case start_transaction ext w of
        (None, w1) \<Rightarrow>
          \<lparr>status = errno_status ext w1, res = r, world = w1, calls = [TxStart None]\<rparr>
      | (Some tx, w1) \<Rightarrow>
          (let q = resolve ext tx (save_target_stamps r tid stamps) tid (update_pass ext r w1 tid)
           in q\<lparr>calls := TxStart (Some tx) # calls q\<rparr>))"

text \<open>\<open>update_target_by_name\<close>, lines 314-325: the first target of that name.\<close>

fun update_target_by_name_loop ::
  "'w extern \<Rightarrow> stamp_buf \<Rightarrow> resolver \<Rightarrow> 'w \<Rightarrow> string \<Rightarrow> nat \<Rightarrow> target list \<Rightarrow> 'w run" where
  "update_target_by_name_loop ext stamps r w nm i [] =
     \<lparr>status = FALSE, res = r, world = w, calls = []\<rparr>"
| "update_target_by_name_loop ext stamps r w nm i (t # ts) =
     (if name t = nm then update_target ext stamps r w i
      else update_target_by_name_loop ext stamps r w nm (Suc i) ts)"

definition update_target_by_name :: "'w extern \<Rightarrow> stamp_buf \<Rightarrow> resolver \<Rightarrow> 'w \<Rightarrow> string \<Rightarrow> 'w run" where
  "update_target_by_name ext stamps r w nm =
     update_target_by_name_loop ext stamps r w nm 0 (targets r)"

text \<open>
  \<open>update_target_by_id\<close>, lines 328-334. \<open>id\<close> is an \<open>int\<close> and the only test is
  \<open>id < r->ntarget\<close>. With a negative \<open>id\<close> the pointer \<open>r->targets + id\<close> lies in front of
  the array and \<open>update_target\<close> is entered with it; the model returns that as a fault.
\<close>

datatype fault = OutsideTargets int

definition update_target_by_id ::
  "'w extern \<Rightarrow> stamp_buf \<Rightarrow> resolver \<Rightarrow> 'w \<Rightarrow> int \<Rightarrow> fault + 'w run" where
  "update_target_by_id ext stamps r w tid =
     (if tid < int (ntarget r)
      then (if tid < 0 then Inl (OutsideTargets tid)
            else Inr (update_target ext stamps r w (nat tid)))
      else Inr \<lparr>status = FALSE, res = r, world = w, calls = []\<rparr>)"

text \<open>
  Modelled from the spec: \<open>mrp_resolver_update_targetl\<close> is defined in resolver.c, which
  is not among the sources. The specification says of the auto-update that it delegates
  to the update by name on the designated target, with a default execution context; the
  context (the trailing \<open>NULL\<close> of the call) carries no variables.
\<close>

definition mrp_resolver_update_targetl ::
  "'w extern \<Rightarrow> stamp_buf \<Rightarrow> resolver \<Rightarrow> 'w \<Rightarrow> string \<Rightarrow> 'w run" where
  "mrp_resolver_update_targetl ext stamps r w nm = update_target_by_name ext stamps r w nm"

text \<open>\<open>autoupdate_target\<close>, lines 337-343.\<close>

definition autoupdate_target :: "'w extern \<Rightarrow> stamp_buf \<Rightarrow> resolver \<Rightarrow> 'w \<Rightarrow> 'w run" where
  "autoupdate_target ext stamps r w =
     (case auto_update r of
        Some a \<Rightarrow> mrp_resolver_update_targetl ext stamps r w (name (targets r ! a))
      | None \<Rightarrow> \<lparr>status = TRUE, res = r, world = w, calls = []\<rparr>)"

subsection \<open>Building the targets\<close>

text \<open>
  What \<open>create_targets\<close> reads of the parser: the parsed targets in list order and the
  name given for the auto-update target, if any.
\<close>

record yy_res_target =
  pt_name :: string
  pt_depends :: "string list"
  script_type :: string
  script_source :: "string option"

record yy_res_parser =
  parser_targets :: "yy_res_target list"
  parser_auto_update :: "string option"

text \<open>
  The three calls of \<open>create_targets\<close> that can fail: growing the array (asked with the
  present number of targets), \<open>mrp_create_script\<close> (\<open>Inl\<close> the \<open>errno\<close> it leaves with
  \<open>NULL\<close>) and \<open>create_fact\<close>, which registers a fact in the fact table.
\<close>

record create_env =
  mrp_reallocz :: "nat \<Rightarrow> bool"
  mrp_create_script :: "string \<Rightarrow> string \<Rightarrow> int + scriptlet"
  create_fact :: "string list \<Rightarrow> string \<Rightarrow> string list option"

text \<open>
  Lines 58-62: every dependency that starts with \<open>$\<close> is registered as a fact. The flag
  says whether every registration succeeded; when one fails the loop returns at once, and
  the fact table keeps what the earlier dependencies of the target registered.
\<close>

fun create_facts_loop :: "create_env \<Rightarrow> string list \<Rightarrow> string list \<Rightarrow> bool \<times> string list" where
  "create_facts_loop ce [] fs = (True, fs)"
| "create_facts_loop ce (d # ds) fs =
     (if (case d of [] \<Rightarrow> False | c # _ \<Rightarrow> c = CHR ''$'')
      then (case create_fact ce fs d of
              None \<Rightarrow> (False, fs)
            | Some fs' \<Rightarrow> create_facts_loop ce ds fs')
      else create_facts_loop ce ds fs)"

text \<open>
  The loop of lines 27-68. Its state is the resolver, the local \<open>auto_update\<close> and
  \<open>errno\<close>; the flag says whether the loop ran to its end (\<open>False\<close> is a \<open>return -1\<close> from
  inside). The new entry is zero-filled by \<open>mrp_reallocz\<close>: no script, no arrays, stamp 0.
  The names and dependency lists move out of the parser; the emptied parser is not part of
  the result.
\<close>

fun create_targets_loop ::
  "create_env \<Rightarrow> string option \<Rightarrow> yy_res_target list \<Rightarrow> resolver \<times> int \<times> int
     \<Rightarrow> bool \<times> resolver \<times> int \<times> int" where
  "create_targets_loop ce pau [] (r, au, e) = (True, r, au, e)"
| "create_targets_loop ce pau (pt # pts) (r, au, e) =
     (if \<not> mrp_reallocz ce (ntarget r) then (False, r, au, e)
      else
        let t = \<lparr>name = pt_name pt, depends = pt_depends pt, update_facts = None,
                 update_targets = [], fact_stamps = [], script = None, stamp = 0\<rparr>;
            r1 = r\<lparr>targets := targets r @ [t]\<rparr>
        in (case (case script_source pt of
                    None \<Rightarrow> Inr None
                  | Some src \<Rightarrow>
                      (case mrp_create_script ce (script_type pt) src of
                         Inl en \<Rightarrow> Inl en
                       | Inr sc \<Rightarrow> Inr (Some sc))) of
              Inl en \<Rightarrow> (False, r1, au, en)
            | Inr sco \<Rightarrow>
                let r2 = r\<lparr>targets := targets r @ [t\<lparr>script := sco\<rparr>]\<rparr>
                in (case create_facts_loop ce (pt_depends pt) (facts r2) of
                      (False, fs) \<Rightarrow> (False, r2\<lparr>facts := fs\<rparr>, au, e)
                    | (True, fs) \<Rightarrow>
                        create_targets_loop ce pau pts
                          (r2\<lparr>facts := fs\<rparr>,
                           (case pau of
                              None \<Rightarrow> au
                            | Some nm \<Rightarrow> if nm = pt_name pt then int (ntarget r) else au),
                           e))))"

text \<open>
  \<open>create_targets\<close>, lines 16-82: the return value, the resolver and \<open>errno\<close>. Only the
  last branch assigns \<open>errno\<close> itself.
\<close>

definition create_targets ::
  "create_env \<Rightarrow> yy_res_parser \<Rightarrow> resolver \<Rightarrow> int \<Rightarrow> int \<times> resolver \<times> int" where
  "create_targets ce parser r e =
     (case create_targets_loop ce (parser_auto_update parser) (parser_targets parser)
             (r\<lparr>targets := []\<rparr>, - 1, e) of
        (False, r', au, e') \<Rightarrow> (- 1, r', e')
      | (True, r', au, e') \<Rightarrow>
          if 0 \<le> au then (0, r'\<lparr>auto_update := Some (nat au)\<rparr>, e')
          else (case parser_auto_update parser of
                  Some nm \<Rightarrow> (- 1, r', ENOENT)
                | None \<Rightarrow> (0, r', e')))"

subsection \<open>A small store and two targets, to run the model on\<close>

text \<open>
  The state outside is the list of the facts' stamps. A script named \<open>bump\<close> raises every
  stamp and reports 1, one named \<open>fail\<close> reports 0, any other reports 2; a target without
  a script reports \<open>TRUE\<close>. Transactions always open (handle 7) and \<open>errno\<close> reads 5;
  whether a commit succeeds is the parameter.
\<close>

definition demo_exec :: "scriptlet option \<Rightarrow> u32 list \<Rightarrow> int \<times> u32 list" where
  "demo_exec sc w =
     (case sc of
        None \<Rightarrow> (TRUE, w)
      | Some s \<Rightarrow>
          if source s = ''bump'' then (1, map (\<lambda>x. x + 1) w)
          else if source s = ''fail'' then (0, w)
          else (2, w))"

definition demo_extern :: "bool \<Rightarrow> (u32 list) extern" where
  "demo_extern commit_ok =
     \<lparr>fact_stamp = (\<lambda>w fid. w ! fid),
      start_transaction = (\<lambda>w. (Some 7, w)),
      commit_transaction = (\<lambda>tx w. (commit_ok, w)),
      rollback_transaction = (\<lambda>tx w. w),
      mrp_execute_script = demo_exec,
      errno = (\<lambda>w. 5)\<rparr>"

text \<open>
  Target 0, \<open>base\<close>, tracks fact 0; target 1, \<open>top\<close>, tracks facts 0 and 1 and comes
  after \<open>base\<close> in its own update order. The scripts and cached stamps are parameters.
\<close>

definition demo_target :: "string \<Rightarrow> nat list option \<Rightarrow> nat list \<Rightarrow> u32 list \<Rightarrow> string \<Rightarrow> target" where
  "demo_target nm uf ut fs src =
     \<lparr>name = nm, depends = [], update_facts = uf, update_targets = ut, fact_stamps = fs,
      script = Some \<lparr>interpreter = ''simple'', source = src\<rparr>, stamp = 0\<rparr>"

definition demo_resolver :: "u32 list \<Rightarrow> string \<Rightarrow> u32 list \<Rightarrow> string \<Rightarrow> resolver" where
  "demo_resolver fs0 src0 fs1 src1 =
     \<lparr>targets = [demo_target ''base'' (Some [0]) [0] fs0 src0,
                 demo_target ''top'' (Some [0, 1]) [0, 1] fs1 src1],
      facts = [''$a'', ''$b''],
      auto_update = None\<rparr>"

subsection \<open>The pass as the specification tells it\<close>

text \<open>
  A second account of lines 268-294, in the words of the specification rather than in
  the shape of the code. The dependencies visited are the entries of the update order in
  front of the first entry that is the subject. An execution has failed when its outcome
  is \<open>\<le> 0\<close>; that is read off the calls made, not off the status variable.
\<close>

definition visited :: "nat \<Rightarrow> nat list \<Rightarrow> nat list" where
  "visited tid dids = takeWhile (\<lambda>d. d \<noteq> tid) dids"

fun exec_failed :: "'w event \<Rightarrow> bool" where
  "exec_failed (Exec d s w) = (s \<le> 0)"
| "exec_failed e = False"

definition failed :: "'w event list \<Rightarrow> bool" where
  "failed evs = list_ex exec_failed evs"

text \<open>A dependency is stale by either predicate.\<close>

definition stale :: "'w extern \<Rightarrow> 'w run \<Rightarrow> nat \<Rightarrow> bool" where
  "stale ext p d \<longleftrightarrow>
     older_than_facts ext (world p) (targets (res p) ! d)
     \<or> older_than_targets (res p) (targets (res p) ! d)"

text \<open>
  Setting a target's \<open>fact_stamps\<close> to the current fact stamps: each tracked position
  holds the stamp its fact has now, the positions behind the tracked ones keep their value.
\<close>

definition refreshed :: "'w extern \<Rightarrow> 'w \<Rightarrow> target \<Rightarrow> u32 list" where
  "refreshed ext w t =
     (case update_facts t of
        None \<Rightarrow> fact_stamps t
      | Some uf \<Rightarrow>
          map (fact_stamp ext w) (take (length (fact_stamps t)) uf)
            @ drop (length uf) (fact_stamps t))"

text \<open>
  The resolver after the refresh of target \<open>d\<close>: entry \<open>d\<close> of the target array has the
  refreshed stamps in its field \<open>fact_stamps\<close>, every other field and every other entry
  is as it was.
\<close>

definition spec_refresh :: "'w extern \<Rightarrow> 'w \<Rightarrow> resolver \<Rightarrow> nat \<Rightarrow> resolver" where
  "spec_refresh ext w r d =
     r\<lparr>targets :=
         (targets r)[d := (targets r ! d)\<lparr>fact_stamps := refreshed ext w (targets r ! d)\<rparr>]\<rparr>"

text \<open>
  Executing the procedure of target \<open>d\<close>: the outcome becomes the status, and an outcome
  \<open>> 0\<close> refreshes the fact stamps of \<open>d\<close>.
\<close>

definition spec_execute :: "'w extern \<Rightarrow> nat \<Rightarrow> 'w run \<Rightarrow> 'w run" where
  "spec_execute ext d p =
     (case mrp_execute_script ext (script (targets (res p) ! d)) (world p) of
        (s, w') \<Rightarrow>
          if 0 < s
          then p\<lparr>status := s, res := spec_refresh ext w' (res p) d,
                 world := w', calls := calls p @ [Exec d s w']\<rparr>
          else p\<lparr>status := s, world := w', calls := calls p @ [Exec d s w']\<rparr>)"

text \<open>
  One visited dependency: nothing more happens once an execution has failed; otherwise a
  stale dependency sets \<open>needs_update\<close> and is executed, a fresh one is passed over.
\<close>

definition spec_visit :: "'w extern \<Rightarrow> bool \<times> 'w run \<Rightarrow> nat \<Rightarrow> bool \<times> 'w run" where
  "spec_visit ext np d =
     (case np of (nu, p) \<Rightarrow>
        if failed (calls p) then (nu, p)
        else if stale ext p d then (True, spec_execute ext d p)
        else (nu, p))"

text \<open>
  The whole pass: \<open>needs_update\<close> starts as \<open>older_than_facts\<close> of the subject, the
  visited dependencies are taken in order, and the subject's own procedure is executed
  only if no execution failed and \<open>needs_update\<close> is set.
\<close>

definition spec_update_pass :: "'w extern \<Rightarrow> resolver \<Rightarrow> 'w \<Rightarrow> nat \<Rightarrow> 'w run" where
  "spec_update_pass ext r w tid =
     (case foldl (spec_visit ext)
             (older_than_facts ext w (targets r ! tid),
              \<lparr>status = TRUE, res = r, world = w, calls = []\<rparr>)
             (visited tid (update_targets (targets r ! tid))) of
        (nu, p) \<Rightarrow> if nu \<and> \<not> failed (calls p) then spec_execute ext tid p else p)"

subsection \<open>Notions for the proofs\<close>

text \<open>
  What the C code needs of a target \<open>d\<close> for its array accesses to stay inside the
  arrays: \<open>d\<close> is an index of the target array, its tracked facts are at most \<open>nfact\<close>
  (its slots in the buffer end before those of target \<open>d + 1\<close> begin), and \<open>fact_stamps\<close>
  has a position for each of them.
\<close>

definition stamps_in_bounds :: "resolver \<Rightarrow> nat \<Rightarrow> bool" where
  "stamps_in_bounds r d \<longleftrightarrow>
     d < ntarget r \<and>
     (case update_facts (targets r ! d) of
        None \<Rightarrow> True
      | Some uf \<Rightarrow> length uf \<le> nfact r \<and> length uf \<le> length (fact_stamps (targets r ! d)))"

text \<open>Position \<open>k\<close> of \<open>fact_stamps\<close> belongs to an entry of \<open>update_facts\<close>.\<close>

definition tracked :: "target \<Rightarrow> nat \<Rightarrow> bool" where
  "tracked t k \<longleftrightarrow> (case update_facts t of None \<Rightarrow> False | Some uf \<Rightarrow> k < length uf)"

text \<open>
  Target \<open>b\<close> is target \<open>a\<close> but for the tracked positions of \<open>fact_stamps\<close>, and a
  resolver is another but for those positions of its targets.
\<close>

definition stamps_only :: "target \<Rightarrow> target \<Rightarrow> bool" where
  "stamps_only a b \<longleftrightarrow>
     b = a\<lparr>fact_stamps := fact_stamps b\<rparr> \<and>
     length (fact_stamps b) = length (fact_stamps a) \<and>
     (\<forall>k < length (fact_stamps a). \<not> tracked a k \<longrightarrow> fact_stamps b ! k = fact_stamps a ! k)"

definition frame :: "resolver \<Rightarrow> resolver \<Rightarrow> bool" where
  "frame r r' \<longleftrightarrow>
     facts r' = facts r \<and> auto_update r' = auto_update r \<and>
     list_all2 stamps_only (targets r) (targets r')"

text \<open>The buffer holds the tracked stamps of target \<open>d\<close> in the slots of \<open>d\<close>.\<close>

definition saved :: "stamp_buf \<Rightarrow> resolver \<Rightarrow> nat \<Rightarrow> bool" where
  "saved buf r d \<longleftrightarrow>
     (\<forall>k. tracked (targets r ! d) k \<longrightarrow> buf (d * nfact r + k) = fact_stamps (targets r ! d) ! k)"

text \<open>An event is the execution of a script.\<close>

fun is_exec :: "'w event \<Rightarrow> bool" where
  "is_exec (Exec d s w) = True"
| "is_exec e = False"

text \<open>
  The status of the last execution among the calls, or the given status when nothing was
  executed.
\<close>

fun last_status :: "int \<Rightarrow> 'w event list \<Rightarrow> int" where
  "last_status s [] = s"
| "last_status s (Exec d s' w # evs) = last_status s' evs"
| "last_status s (e # evs) = last_status s evs"

text \<open>
  Where a pass stands: every target whose script ran with success holds the stamps its
  facts had in the state that script left, on top of what it held before the pass; every
  target whose script did not run is as before the pass.
\<close>

definition refreshed_so_far :: "'w extern \<Rightarrow> resolver \<Rightarrow> 'w run \<Rightarrow> bool" where
  "refreshed_so_far ext r p \<longleftrightarrow>
     length (targets (res p)) = length (targets r) \<and>
     (\<forall>d s w'. Exec d s w' \<in> set (calls p) \<longrightarrow> d < length (targets r)) \<and>
     (\<forall>d s w'. Exec d s w' \<in> set (calls p) \<longrightarrow> 0 < s \<longrightarrow>
        targets (res p) ! d = (targets r ! d)\<lparr>fact_stamps := refreshed ext w' (targets r ! d)\<rparr>) \<and>
     (\<forall>d < length (targets r). (\<forall>s w'. Exec d s w' \<notin> set (calls p)) \<longrightarrow>
        targets (res p) ! d = targets r ! d)"

text \<open>
  The loop of \<open>create_targets\<close> ran to its end: no allocation, no script and no fact
  registration failed.
\<close>

definition materialized :: "create_env \<Rightarrow> yy_res_parser \<Rightarrow> resolver \<Rightarrow> int \<Rightarrow> bool" where
  "materialized ce parser r e =
     fst (create_targets_loop ce (parser_auto_update parser) (parser_targets parser)
            (r\<lparr>targets := []\<rparr>, - 1, e))"

text \<open>
  Surroundings in which nothing fails, and a parser with the two targets \<open>base\<close> and
  \<open>top\<close>; the auto-update name is the parameter.
\<close>

definition demo_create_env :: create_env where
  "demo_create_env =
     \<lparr>mrp_reallocz = (\<lambda>n. True),
      mrp_create_script = (\<lambda>ty src. Inr \<lparr>interpreter = ty, source = src\<rparr>),
      create_fact = (\<lambda>fs nm. Some (if nm \<in> set fs then fs else fs @ [nm]))\<rparr>"

definition demo_parser :: "string option \<Rightarrow> yy_res_parser" where
  "demo_parser au =
     \<lparr>parser_targets =
        [\<lparr>pt_name = ''base'', pt_depends = [''$a''], script_type = ''simple'',
          script_source = Some ''bump''\<rparr>,
         \<lparr>pt_name = ''top'', pt_depends = [''base'', ''$b''], script_type = ''simple'',
          script_source = None\<rparr>],
      parser_auto_update = au\<rparr>"

definition empty_resolver :: resolver where
  "empty_resolver = \<lparr>targets = [], facts = [], auto_update = None\<rparr>"

section \<open>Properties\<close>

text \<open>The definitions that running the model on the small store unfolds.\<close>

lemmas demo_defs = update_target_def update_pass_def demo_extern_def demo_resolver_def demo_target_def run_own_def
       older_than_facts_def older_than_targets_def update_target_stamps_def set_fact_stamps_def
       demo_exec_def TRUE_def resolve_def save_target_stamps_def restore_target_stamps_def
       restore_fact_stamps_def save_fact_stamps_def nfact_def errno_status_def ntarget_def

lemma older_than_facts_loop_iff:
  "older_than_facts_loop ext w fs i fids \<longleftrightarrow>
     (\<exists>k < length fids. fs ! (i + k) < fact_stamp ext w (fids ! k))"
proof (induction fids arbitrary: i)
  case Nil
  show ?case by simp
next
  case (Cons fid fids)
  have "(\<exists>k < length (fid # fids). fs ! (i + k) < fact_stamp ext w ((fid # fids) ! k)) \<longleftrightarrow>
        (fs ! i < fact_stamp ext w fid \<or>
         (\<exists>k < length fids. fs ! (Suc i + k) < fact_stamp ext w (fids ! k)))"
    by (auto simp: less_Suc_eq_0_disj)
  with Cons.IH [of "Suc i"] show ?case by auto
qed

subsection \<open>Staleness by facts\<close>

text \<open>
  C3. A target whose \<open>update_facts\<close> is \<open>NULL\<close> is older than its facts whatever else it
  holds; a target with \<open>update_facts\<close> is older than its facts exactly when the current
  stamp of some tracked fact is strictly above the cached stamp at the same position.
\<close>

theorem older_than_facts_spec:
  "(update_facts t = None \<longrightarrow> older_than_facts ext w t) \<and>
   (\<forall>uf. update_facts t = Some uf \<longrightarrow>
      (older_than_facts ext w t \<longleftrightarrow>
         (\<exists>i < length uf. fact_stamps t ! i < fact_stamp ext w (uf ! i))))"
  by (simp add: older_than_facts_def older_than_facts_loop_iff)

theorem older_than_facts_spec_witness:
  "older_than_facts (demo_extern True) [3, 9] (demo_target ''free'' None [0] [] ''bump'') \<and>
   update_facts (demo_target ''top'' (Some [0, 1]) [0, 1] [3, 8] ''bump'') = Some [0, 1] \<and>
   older_than_facts (demo_extern True) [3, 9]
     (demo_target ''top'' (Some [0, 1]) [0, 1] [3, 8] ''bump'') \<and>
   (\<exists>i < length [0, 1 :: nat].
      fact_stamps (demo_target ''top'' (Some [0, 1]) [0, 1] [3, 8] ''bump'') ! i
        < fact_stamp (demo_extern True) [3, 9] ([0, 1] ! i))"
proof -
  have a: "update_facts (demo_target ''free'' None [0] [] ''bump'') = None"
    by (simp add: demo_target_def)
  have b: "update_facts (demo_target ''top'' (Some [0, 1]) [0, 1] [3, 8] ''bump'') = Some [0, 1]"
    by (simp add: demo_target_def)
  have c: "\<exists>i < length [0, 1 :: nat].
      fact_stamps (demo_target ''top'' (Some [0, 1]) [0, 1] [3, 8] ''bump'') ! i
        < fact_stamp (demo_extern True) [3, 9] ([0, 1] ! i)"
    by (rule exI [of _ 1]) (simp add: demo_target_def demo_extern_def)
  from older_than_facts_spec [of "demo_target ''free'' None [0] [] ''bump''" "demo_extern True" "[3, 9]"] a
  have d: "older_than_facts (demo_extern True) [3, 9] (demo_target ''free'' None [0] [] ''bump'')"
    by blast
  from older_than_facts_spec
         [of "demo_target ''top'' (Some [0, 1]) [0, 1] [3, 8] ''bump''" "demo_extern True" "[3, 9]"] b c
  have e: "older_than_facts (demo_extern True) [3, 9]
     (demo_target ''top'' (Some [0, 1]) [0, 1] [3, 8] ''bump'')"
    by blast
  from a b c d e show ?thesis by blast
qed

subsection \<open>Requests that name no target\<close>

lemma update_target_by_name_loop_missing:
  "nm \<notin> name ` set ts \<Longrightarrow>
   update_target_by_name_loop ext stamps r w nm i ts
     = \<lparr>status = FALSE, res = r, world = w, calls = []\<rparr>"
  by (induction ts arbitrary: i) auto

lemma update_target_calls_nonempty: "calls (update_target ext stamps r w tid) \<noteq> []"
  by (simp add: update_target_def Let_def split: prod.splits option.splits)

text \<open>
  C8. An update by a name that no target carries returns \<open>FALSE\<close> and leaves the
  resolver and the state outside as they were, with no call made: no transaction, no
  script. An update by an index at or above \<open>ntarget\<close> does the same.
\<close>

theorem unresolved_request_no_effect:
  "(nm \<notin> name ` set (targets r) \<longrightarrow>
      update_target_by_name ext stamps r w nm
        = \<lparr>status = FALSE, res = r, world = w, calls = []\<rparr>) \<and>
   (int (ntarget r) \<le> i \<longrightarrow>
      update_target_by_id ext stamps r w i
        = Inr \<lparr>status = FALSE, res = r, world = w, calls = []\<rparr>)"
  by (simp add: update_target_by_name_def update_target_by_name_loop_missing
        update_target_by_id_def)

theorem unresolved_request_no_effect_witness:
  "''missing'' \<notin> name ` set (targets (demo_resolver [0] ''bump'' [0, 0] ''bump'')) \<and>
   update_target_by_name (demo_extern True) (\<lambda>_. 0) (demo_resolver [0] ''bump'' [0, 0] ''bump'')
       [1, 1] ''missing''
     = \<lparr>status = FALSE, res = demo_resolver [0] ''bump'' [0, 0] ''bump'', world = [1, 1],
        calls = []\<rparr> \<and>
   int (ntarget (demo_resolver [0] ''bump'' [0, 0] ''bump'')) \<le> 2 \<and>
   update_target_by_id (demo_extern True) (\<lambda>_. 0) (demo_resolver [0] ''bump'' [0, 0] ''bump'')
       [1, 1] 2
     = Inr \<lparr>status = FALSE, res = demo_resolver [0] ''bump'' [0, 0] ''bump'', world = [1, 1],
            calls = []\<rparr>"
proof -
  have a: "''missing'' \<notin> name ` set (targets (demo_resolver [0] ''bump'' [0, 0] ''bump''))"
    by (simp add: demo_resolver_def demo_target_def)
  have b: "int (ntarget (demo_resolver [0] ''bump'' [0, 0] ''bump'')) \<le> 2"
    by (simp add: demo_resolver_def ntarget_def)
  from a b unresolved_request_no_effect
    [of "''missing''" "demo_resolver [0] ''bump'' [0, 0] ''bump''" "demo_extern True" "\<lambda>_. 0"
        "[1, 1]" 2]
  show ?thesis by blast
qed

text \<open>
  C9. \<open>update_target_by_id\<close> turns an index away, with \<open>FALSE\<close> and nothing attempted,
  exactly when the index is at or above \<open>ntarget\<close>. Every negative index passes the test
  and \<open>update_target\<close> is entered with the entry at that offset in front of the array; an
  index from 0 below \<open>ntarget\<close> updates that target.
\<close>

theorem update_target_by_id_bounds:
  "(update_target_by_id ext stamps r w i
      = Inr \<lparr>status = FALSE, res = r, world = w, calls = []\<rparr> \<longleftrightarrow> int (ntarget r) \<le> i) \<and>
   (i < 0 \<longrightarrow> update_target_by_id ext stamps r w i = Inl (OutsideTargets i)) \<and>
   (0 \<le> i \<and> i < int (ntarget r) \<longrightarrow>
      update_target_by_id ext stamps r w i = Inr (update_target ext stamps r w (nat i)))"
proof -
  have "update_target ext stamps r w (nat i) \<noteq> \<lparr>status = FALSE, res = r, world = w, calls = []\<rparr>"
    using update_target_calls_nonempty [of ext stamps r w "nat i"] by auto
  then show ?thesis
    by (auto simp: update_target_by_id_def)
qed

theorem update_target_by_id_bounds_witness:
  "(- 1 :: int) < 0 \<and>
   update_target_by_id (demo_extern True) (\<lambda>_. 0) (demo_resolver [0] ''bump'' [0, 0] ''bump'')
       [1, 1] (- 1) = Inl (OutsideTargets (- 1)) \<and>
   int (ntarget (demo_resolver [0] ''bump'' [0, 0] ''bump'')) \<le> 2 \<and>
   update_target_by_id (demo_extern True) (\<lambda>_. 0) (demo_resolver [0] ''bump'' [0, 0] ''bump'')
       [1, 1] 2
     = Inr \<lparr>status = FALSE, res = demo_resolver [0] ''bump'' [0, 0] ''bump'', world = [1, 1],
            calls = []\<rparr> \<and>
   (0 :: int) \<le> 1 \<and> 1 < int (ntarget (demo_resolver [0] ''bump'' [0, 0] ''bump'')) \<and>
   update_target_by_id (demo_extern True) (\<lambda>_. 0) (demo_resolver [0] ''bump'' [0, 0] ''bump'')
       [1, 1] 1
     = Inr (update_target (demo_extern True) (\<lambda>_. 0) (demo_resolver [0] ''bump'' [0, 0] ''bump'')
              [1, 1] (nat 1))"
proof -
  have n: "int (ntarget (demo_resolver [0] ''bump'' [0, 0] ''bump'')) = 2"
    by (simp add: demo_resolver_def ntarget_def)
  from update_target_by_id_bounds
    [of "demo_extern True" "\<lambda>_. 0" "demo_resolver [0] ''bump'' [0, 0] ''bump''" "[1, 1]" "- 1"]
  have a: "update_target_by_id (demo_extern True) (\<lambda>_. 0)
             (demo_resolver [0] ''bump'' [0, 0] ''bump'') [1, 1] (- 1) = Inl (OutsideTargets (- 1))"
    by simp
  from n update_target_by_id_bounds
    [of "demo_extern True" "\<lambda>_. 0" "demo_resolver [0] ''bump'' [0, 0] ''bump''" "[1, 1]" 2]
  have b: "update_target_by_id (demo_extern True) (\<lambda>_. 0)
             (demo_resolver [0] ''bump'' [0, 0] ''bump'') [1, 1] 2
     = Inr \<lparr>status = FALSE, res = demo_resolver [0] ''bump'' [0, 0] ''bump'', world = [1, 1],
            calls = []\<rparr>"
    by simp
  from n update_target_by_id_bounds
    [of "demo_extern True" "\<lambda>_. 0" "demo_resolver [0] ''bump'' [0, 0] ''bump''" "[1, 1]" 1]
  have c: "update_target_by_id (demo_extern True) (\<lambda>_. 0)
             (demo_resolver [0] ''bump'' [0, 0] ''bump'') [1, 1] 1
     = Inr (update_target (demo_extern True) (\<lambda>_. 0) (demo_resolver [0] ''bump'' [0, 0] ''bump'')
              [1, 1] (nat 1))"
    by simp
  from n a b c show ?thesis by simp
qed

subsection \<open>The auto-update\<close>

text \<open>
  C7. Without an auto-update target, \<open>autoupdate_target\<close> returns \<open>TRUE\<close> with the
  resolver and the state outside untouched and no call made: no transaction, no script.
  With one, it is the update by name on that target's name.
\<close>

theorem autoupdate_target_spec:
  "(auto_update r = None \<longrightarrow>
      autoupdate_target ext stamps r w = \<lparr>status = TRUE, res = r, world = w, calls = []\<rparr>) \<and>
   (\<forall>a. auto_update r = Some a \<longrightarrow>
      autoupdate_target ext stamps r w
        = update_target_by_name ext stamps r w (name (targets r ! a)))"
  by (simp add: autoupdate_target_def mrp_resolver_update_targetl_def)

theorem autoupdate_target_spec_witness:
  "auto_update (demo_resolver [0] ''bump'' [0, 0] ''bump'') = None \<and>
   autoupdate_target (demo_extern True) (\<lambda>_. 0) (demo_resolver [0] ''bump'' [0, 0] ''bump'') [1, 1]
     = \<lparr>status = TRUE, res = demo_resolver [0] ''bump'' [0, 0] ''bump'', world = [1, 1],
        calls = []\<rparr> \<and>
   auto_update ((demo_resolver [0] ''bump'' [0, 0] ''bump'')\<lparr>auto_update := Some 1\<rparr>) = Some 1 \<and>
   autoupdate_target (demo_extern True) (\<lambda>_. 0)
       ((demo_resolver [0] ''bump'' [0, 0] ''bump'')\<lparr>auto_update := Some 1\<rparr>) [1, 1]
     = update_target_by_name (demo_extern True) (\<lambda>_. 0)
         ((demo_resolver [0] ''bump'' [0, 0] ''bump'')\<lparr>auto_update := Some 1\<rparr>) [1, 1] ''top''"
proof -
  have a: "auto_update (demo_resolver [0] ''bump'' [0, 0] ''bump'') = None"
    by (simp add: demo_resolver_def)
  have b: "name (targets ((demo_resolver [0] ''bump'' [0, 0] ''bump'')\<lparr>auto_update := Some 1\<rparr>) ! 1)
             = ''top''"
    by (simp add: demo_resolver_def demo_target_def)
  from a autoupdate_target_spec
    [of "demo_resolver [0] ''bump'' [0, 0] ''bump''" "demo_extern True" "\<lambda>_. 0" "[1, 1]"]
  have c: "autoupdate_target (demo_extern True) (\<lambda>_. 0)
             (demo_resolver [0] ''bump'' [0, 0] ''bump'') [1, 1]
     = \<lparr>status = TRUE, res = demo_resolver [0] ''bump'' [0, 0] ''bump'', world = [1, 1],
        calls = []\<rparr>"
    by blast
  from autoupdate_target_spec
    [of "(demo_resolver [0] ''bump'' [0, 0] ''bump'')\<lparr>auto_update := Some 1\<rparr>" "demo_extern True"
        "\<lambda>_. 0" "[1, 1]"] b
  have d: "autoupdate_target (demo_extern True) (\<lambda>_. 0)
       ((demo_resolver [0] ''bump'' [0, 0] ''bump'')\<lparr>auto_update := Some 1\<rparr>) [1, 1]
     = update_target_by_name (demo_extern True) (\<lambda>_. 0)
         ((demo_resolver [0] ''bump'' [0, 0] ''bump'')\<lparr>auto_update := Some 1\<rparr>) [1, 1] ''top''"
    by simp
  from a c d show ?thesis by simp
qed

subsection \<open>The update pass\<close>

lemma update_target_stamps_loop_length [simp]:
  "length (update_target_stamps_loop ext w i fids fs) = length fs"
  by (induction fids arbitrary: i fs) simp_all

lemma update_target_stamps_loop_nth:
  "k < length fs \<Longrightarrow>
   update_target_stamps_loop ext w i fids fs ! k
     = (if i \<le> k \<and> k < i + length fids then fact_stamp ext w (fids ! (k - i)) else fs ! k)"
proof (induction fids arbitrary: i fs)
  case Nil
  show ?case by auto
next
  case (Cons fid fids)
  from Cons.prems have k: "k < length (fs[i := fact_stamp ext w fid])" by simp
  show ?case
    using Cons.IH [OF k, of "Suc i"] Cons.prems
    by (auto simp: nth_list_update Suc_diff_le nth_Cons')
qed

lemma update_target_stamps_loop_eq:
  "update_target_stamps_loop ext w 0 uf fs
     = map (fact_stamp ext w) (take (length fs) uf) @ drop (length uf) fs"
  by (rule nth_equalityI)
     (auto simp: update_target_stamps_loop_nth nth_append min_def)

lemma update_target_stamps_refresh:
  "update_target_stamps ext w r d = spec_refresh ext w r d"
  by (simp add: update_target_stamps_def spec_refresh_def refreshed_def set_fact_stamps_def
        update_target_stamps_loop_eq split: option.splits)

lemma failed_append_exec [simp]: "failed (evs @ [Exec d s w]) \<longleftrightarrow> failed evs \<or> s \<le> 0"
  by (auto simp: failed_def)

lemma failed_Nil [simp]: "\<not> failed []"
  by (simp add: failed_def)

lemma spec_visit_pair:
  "spec_visit ext (nu, p) d =
     (if failed (calls p) then (nu, p)
      else if stale ext p d then (True, spec_execute ext d p)
      else (nu, p))"
  by (simp add: spec_visit_def)

lemma foldl_spec_visit_failed:
  "failed (calls p) \<Longrightarrow> foldl (spec_visit ext) (nu, p) ds = (nu, p)"
  by (induction ds) (simp_all add: spec_visit_pair)

lemma walk_refines:
  "\<not> failed (calls p) \<Longrightarrow> 0 < status p \<Longrightarrow>
   walk ext tid dids (nu, p) = foldl (spec_visit ext) (nu, p) (visited tid dids)"
proof (induction dids arbitrary: nu p)
  case Nil
  show ?case by (simp add: visited_def)
next
  case (Cons did dids)
  show ?case
  proof (cases "did = tid")
    case True
    then show ?thesis by (simp add: visited_def)
  next
    case False
    note ne = this
    show ?thesis
    proof (cases "stale ext p did")
      case False
      with ne Cons.prems Cons.IH [of p nu] show ?thesis
        by (simp add: visited_def spec_visit_pair stale_def)
    next
      case True
      obtain s w' where ex: "mrp_execute_script ext (script (targets (res p) ! did)) (world p) = (s, w')"
        by (cases "mrp_execute_script ext (script (targets (res p) ! did)) (world p)")
      show ?thesis
      proof (cases "s \<le> 0")
        case True
        let ?q = "p\<lparr>status := s, world := w', calls := calls p @ [Exec did s w']\<rparr>"
        have "failed (calls ?q)" using True by simp
        from foldl_spec_visit_failed [OF this, of ext True "visited tid dids"]
        show ?thesis using ne \<open>stale ext p did\<close> True ex Cons.prems
          by (simp add: visited_def spec_visit_pair stale_def spec_execute_def update_target_stamps_refresh)
      next
        case False
        let ?q = "p\<lparr>status := s, res := update_target_stamps ext w' (res p) did,
                     world := w', calls := calls p @ [Exec did s w']\<rparr>"
        have a: "\<not> failed (calls ?q)" using False Cons.prems by simp
        have b: "0 < status ?q" using False by simp
        from Cons.IH [OF a b, of True, unfolded update_target_stamps_refresh]
        show ?thesis using ne \<open>stale ext p did\<close> False ex Cons.prems
          by (simp add: visited_def spec_visit_pair stale_def spec_execute_def update_target_stamps_refresh)
      qed
    qed
  qed
qed

lemma walk_status_failed:
  "\<not> failed (calls p) \<Longrightarrow> 0 < status p \<Longrightarrow>
   (0 < status (snd (walk ext tid dids (nu, p))) \<longleftrightarrow>
      \<not> failed (calls (snd (walk ext tid dids (nu, p)))))"
proof (induction dids arbitrary: nu p)
  case Nil
  then show ?case by simp
next
  case (Cons did dids)
  show ?case
  proof (cases "mrp_execute_script ext (script (targets (res p) ! did)) (world p)")
    case (Pair s w')
    let ?q = "p\<lparr>status := s, res := update_target_stamps ext w' (res p) did,
                 world := w', calls := calls p @ [Exec did s w']\<rparr>"
    have "0 < s \<Longrightarrow> \<not> failed (calls ?q)" "0 < s \<Longrightarrow> 0 < status ?q"
      using Cons.prems by simp_all
    from Cons.IH [OF this, of True] Cons.IH [OF Cons.prems, of nu] Cons.prems Pair
    show ?thesis by auto
  qed
qed

lemma update_pass_is_spec_pass:
  "update_pass ext r w tid = spec_update_pass ext r w tid"
proof -
  let ?p0 = "\<lparr>status = TRUE, res = r, world = w, calls = []\<rparr> :: 'a run"
  let ?nu0 = "older_than_facts ext w (targets r ! tid)"
  let ?dids = "update_targets (targets r ! tid)"
  have i0: "\<not> failed (calls ?p0)" by simp
  have s0: "0 < status ?p0" by (simp add: TRUE_def)
  have eq: "walk ext tid ?dids (?nu0, ?p0) = foldl (spec_visit ext) (?nu0, ?p0) (visited tid ?dids)"
    by (rule walk_refines [OF i0 s0])
  obtain nu p where np: "walk ext tid ?dids (?nu0, ?p0) = (nu, p)"
    by (cases "walk ext tid ?dids (?nu0, ?p0)")
  from walk_status_failed [OF i0 s0, of ext tid ?dids ?nu0] np
  have inv: "0 < status p \<longleftrightarrow> \<not> failed (calls p)" by simp
  have own: "run_own ext tid (nu, p) = (if nu \<and> \<not> failed (calls p) then spec_execute ext tid p else p)"
    using inv by (auto simp: run_own_def spec_execute_def update_target_stamps_refresh split: prod.splits)
  from eq np have f: "foldl (spec_visit ext) (?nu0, ?p0) (visited tid ?dids) = (nu, p)"
    by simp
  have "update_pass ext r w tid = run_own ext tid (nu, p)"
    by (simp add: update_pass_def np)
  also note own
  also have "(if nu \<and> \<not> failed (calls p) then spec_execute ext tid p else p)
               = spec_update_pass ext r w tid"
    by (simp add: spec_update_pass_def f)
  finally show ?thesis .
qed

lemma update_target_stamps_field:
  assumes d: "d < ntarget r" and uf: "update_facts (targets r ! d) = Some uf"
      and k: "k < length uf" "k < length (fact_stamps (targets r ! d))"
  shows "fact_stamps (targets (update_target_stamps ext w r d) ! d) ! k = fact_stamp ext w (uf ! k)"
  using d uf k
  by (simp add: update_target_stamps_def set_fact_stamps_def ntarget_def
        update_target_stamps_loop_nth)

text \<open>
  C2. The pass of \<open>update_target\<close> is the pass the specification describes: the entries
  of the update order are visited in order up to, and not including, the first that is
  the subject; a visited dependency is executed exactly when it is stale by
  \<open>older_than_facts\<close> or \<open>older_than_targets\<close>; an outcome \<open>\<le> 0\<close> becomes the status and
  ends all execution; an outcome \<open>> 0\<close> sets the dependency's \<open>fact_stamps\<close> to the
  current fact stamps and the walk goes on; the subject's own procedure runs only if no
  execution failed and \<open>needs_update\<close> holds, and refreshes the subject's \<open>fact_stamps\<close>
  on success. The refresh is stated on the field as well: after the step of the code that
  executes a stale dependency with an outcome \<open>> 0\<close>, and after the step that executes
  the subject with an outcome \<open>> 0\<close>, every tracked position of that target's
  \<open>fact_stamps\<close> holds the stamp its fact has in the state the procedure left.
\<close>

theorem update_pass_refines_spec:
  "update_pass ext r w tid = spec_update_pass ext r w tid \<and>
   (\<forall>p nu d s w' uf k.
      d \<noteq> tid \<and> stale ext p d \<and>
      mrp_execute_script ext (script (targets (res p) ! d)) (world p) = (s, w') \<and> 0 < s \<and>
      d < ntarget (res p) \<and> update_facts (targets (res p) ! d) = Some uf \<and>
      k < length uf \<and> k < length (fact_stamps (targets (res p) ! d)) \<longrightarrow>
      fact_stamps (targets (res (snd (walk ext tid [d] (nu, p)))) ! d) ! k
        = fact_stamp ext w' (uf ! k)) \<and>
   (\<forall>p s w' uf k.
      0 < status p \<and>
      mrp_execute_script ext (script (targets (res p) ! tid)) (world p) = (s, w') \<and> 0 < s \<and>
      tid < ntarget (res p) \<and> update_facts (targets (res p) ! tid) = Some uf \<and>
      k < length uf \<and> k < length (fact_stamps (targets (res p) ! tid)) \<longrightarrow>
      fact_stamps (targets (res (run_own ext tid (True, p))) ! tid) ! k
        = fact_stamp ext w' (uf ! k))"
proof (intro conjI allI impI)
  show "update_pass ext r w tid = spec_update_pass ext r w tid"
    by (rule update_pass_is_spec_pass)
next
  fix p :: "'a run" and nu d s w' uf k
  assume a: "d \<noteq> tid \<and> stale ext p d \<and>
      mrp_execute_script ext (script (targets (res p) ! d)) (world p) = (s, w') \<and> 0 < s \<and>
      d < ntarget (res p) \<and> update_facts (targets (res p) ! d) = Some uf \<and>
      k < length uf \<and> k < length (fact_stamps (targets (res p) ! d))"
  then have "res (snd (walk ext tid [d] (nu, p))) = update_target_stamps ext w' (res p) d"
    by (auto simp: stale_def)
  with a update_target_stamps_field [of d "res p" uf k ext w']
  show "fact_stamps (targets (res (snd (walk ext tid [d] (nu, p)))) ! d) ! k
        = fact_stamp ext w' (uf ! k)"
    by simp
next
  fix p :: "'a run" and s w' uf k
  assume a: "0 < status p \<and>
      mrp_execute_script ext (script (targets (res p) ! tid)) (world p) = (s, w') \<and> 0 < s \<and>
      tid < ntarget (res p) \<and> update_facts (targets (res p) ! tid) = Some uf \<and>
      k < length uf \<and> k < length (fact_stamps (targets (res p) ! tid))"
  then have "res (run_own ext tid (True, p)) = update_target_stamps ext w' (res p) tid"
    by (simp add: run_own_def)
  with a update_target_stamps_field [of tid "res p" uf k ext w']
  show "fact_stamps (targets (res (run_own ext tid (True, p))) ! tid) ! k
        = fact_stamp ext w' (uf ! k)"
    by simp
qed

theorem update_pass_refines_spec_witness:
  "update_pass (demo_extern True) (demo_resolver [0] ''bump'' [0, 0] ''fine'') [1, 1] 1
     = spec_update_pass (demo_extern True) (demo_resolver [0] ''bump'' [0, 0] ''fine'') [1, 1] 1 \<and>
   (0::nat) \<noteq> 1 \<and>
   stale (demo_extern True)
     \<lparr>status = TRUE, res = demo_resolver [0] ''bump'' [0, 0] ''fine'', world = [1, 1], calls = []\<rparr> 0 \<and>
   mrp_execute_script (demo_extern True)
       (script (targets (demo_resolver [0] ''bump'' [0, 0] ''fine'') ! 0)) [1, 1] = (1, [2, 2]) \<and>
   update_facts (targets (demo_resolver [0] ''bump'' [0, 0] ''fine'') ! 0) = Some [0] \<and>
   fact_stamps (targets (res (snd (walk (demo_extern True) 1 [0]
       (False, \<lparr>status = TRUE, res = demo_resolver [0] ''bump'' [0, 0] ''fine'', world = [1, 1],
                calls = []\<rparr>)))) ! 0) ! 0
     = fact_stamp (demo_extern True) [2, 2] ([0] ! 0) \<and>
   mrp_execute_script (demo_extern True)
       (script (targets (demo_resolver [0] ''bump'' [0, 0] ''fine'') ! 1)) [1, 1] = (2, [1, 1]) \<and>
   update_facts (targets (demo_resolver [0] ''bump'' [0, 0] ''fine'') ! 1) = Some [0, 1] \<and>
   fact_stamps (targets (res (run_own (demo_extern True) 1
       (True, \<lparr>status = TRUE, res = demo_resolver [0] ''bump'' [0, 0] ''fine'', world = [1, 1],
               calls = []\<rparr>))) ! 1) ! 1
     = fact_stamp (demo_extern True) [1, 1] ([0, 1] ! 1)"
proof -
  let ?e = "demo_extern True"
  let ?r = "demo_resolver [0] ''bump'' [0, 0] ''fine''"
  let ?p = "\<lparr>status = TRUE, res = ?r, world = [1, 1], calls = []\<rparr> :: (u32 list) run"
  note T = update_pass_refines_spec [of ?e ?r "[1, 1]" 1]
  have st: "stale ?e ?p 0"
    by (simp add: stale_def older_than_facts_def demo_resolver_def demo_target_def demo_extern_def)
  have x0: "mrp_execute_script ?e (script (targets ?r ! 0)) [1, 1] = (1, [2, 2])"
    by (simp add: demo_resolver_def demo_target_def demo_extern_def demo_exec_def)
  have x1: "mrp_execute_script ?e (script (targets ?r ! 1)) [1, 1] = (2, [1, 1])"
    by (simp add: demo_resolver_def demo_target_def demo_extern_def demo_exec_def)
  have u0: "update_facts (targets ?r ! 0) = Some [0]"
    by (simp add: demo_resolver_def demo_target_def)
  have u1: "update_facts (targets ?r ! 1) = Some [0, 1]"
    by (simp add: demo_resolver_def demo_target_def)
  have h1: "(0::nat) \<noteq> 1 \<and> stale ?e ?p 0 \<and>
      mrp_execute_script ?e (script (targets (res ?p) ! 0)) (world ?p) = (1, [2, 2]) \<and> (0::int) < 1 \<and>
      0 < ntarget (res ?p) \<and> update_facts (targets (res ?p) ! 0) = Some [0] \<and>
      (0::nat) < length [0::nat] \<and> 0 < length (fact_stamps (targets (res ?p) ! 0))"
    using st x0 u0 by (simp add: ntarget_def demo_resolver_def demo_target_def)
  have h2: "0 < status ?p \<and>
      mrp_execute_script ?e (script (targets (res ?p) ! 1)) (world ?p) = (2, [1, 1]) \<and> (0::int) < 2 \<and>
      1 < ntarget (res ?p) \<and> update_facts (targets (res ?p) ! 1) = Some [0, 1] \<and>
      (1::nat) < length [0, 1::nat] \<and> 1 < length (fact_stamps (targets (res ?p) ! 1))"
    using x1 u1 by (simp add: ntarget_def demo_resolver_def demo_target_def TRUE_def)
  from T have a: "update_pass ?e ?r [1, 1] 1 = spec_update_pass ?e ?r [1, 1] 1" by (rule conjunct1)
  from T [THEN conjunct2, THEN conjunct1, rule_format, OF h1, of False]
  have b: "fact_stamps (targets (res (snd (walk ?e 1 [0] (False, ?p)))) ! 0) ! 0
     = fact_stamp ?e [2, 2] ([0] ! 0)" .
  from T [THEN conjunct2, THEN conjunct2, rule_format, OF h2]
  have c: "fact_stamps (targets (res (run_own ?e 1 (True, ?p))) ! 1) ! 1
     = fact_stamp ?e [1, 1] ([0, 1] ! 1)" .
  from a st x0 x1 u0 u1 b c show ?thesis by simp
qed

subsection \<open>The checkpoint and what a pass may change\<close>

lemma stamps_only_refl: "stamps_only a a"
  by (simp add: stamps_only_def)

lemma stamps_only_update_facts: "stamps_only a b \<Longrightarrow> update_facts b = update_facts a"
  by (metis stamps_only_def target.select_convs(3) target.surjective target.update_convs(5))

lemma stamps_only_tracked: "stamps_only a b \<Longrightarrow> tracked b k = tracked a k"
  by (simp add: tracked_def stamps_only_update_facts)

lemma stamps_only_trans:
  assumes ab: "stamps_only a b" and bc: "stamps_only b c"
  shows "stamps_only a c"
proof -
  from ab have b: "b = a\<lparr>fact_stamps := fact_stamps b\<rparr>" by (simp add: stamps_only_def)
  from bc have c: "c = b\<lparr>fact_stamps := fact_stamps c\<rparr>" by (simp add: stamps_only_def)
  have "c = a\<lparr>fact_stamps := fact_stamps c\<rparr>"
    by (subst c, subst b) simp
  moreover have "length (fact_stamps c) = length (fact_stamps a)"
    using ab bc by (simp add: stamps_only_def)
  moreover have "\<forall>k < length (fact_stamps a). \<not> tracked a k \<longrightarrow> fact_stamps c ! k = fact_stamps a ! k"
    using ab bc stamps_only_tracked [OF ab] by (simp add: stamps_only_def)
  ultimately show ?thesis by (simp add: stamps_only_def)
qed

lemma frame_refl: "frame r r"
  by (simp add: frame_def list_all2_refl stamps_only_refl)

lemma frame_trans: "frame a b \<Longrightarrow> frame b c \<Longrightarrow> frame a c"
  unfolding frame_def
  by (auto intro: list_all2_trans [where ?P1.0 = stamps_only and ?P2.0 = stamps_only] stamps_only_trans)

lemma frame_ntarget: "frame r r' \<Longrightarrow> ntarget r' = ntarget r"
  by (auto simp: frame_def ntarget_def dest: list_all2_lengthD)

lemma frame_nfact: "frame r r' \<Longrightarrow> nfact r' = nfact r"
  by (simp add: frame_def nfact_def)

lemma frame_nth: "frame r r' \<Longrightarrow> d < ntarget r \<Longrightarrow> stamps_only (targets r ! d) (targets r' ! d)"
  by (simp add: frame_def ntarget_def list_all2_nthD)

lemma set_fact_stamps_frame:
  assumes len: "length fs = length (fact_stamps (targets r ! d))"
      and same: "\<forall>k < length fs. \<not> tracked (targets r ! d) k \<longrightarrow> fs ! k = fact_stamps (targets r ! d) ! k"
  shows "frame r (set_fact_stamps r d fs)"
proof -
  let ?ts = "(targets r)[d := (targets r ! d)\<lparr>fact_stamps := fs\<rparr>]"
  have "stamps_only (targets r ! i) (?ts ! i)" if "i < length (targets r)" for i
  proof (cases "i = d")
    case True
    with that len same show ?thesis by (simp add: stamps_only_def)
  next
    case False
    then show ?thesis by (simp add: stamps_only_refl)
  qed
  then have "list_all2 stamps_only (targets r) ?ts"
    by (simp add: list_all2_conv_all_nth)
  then show ?thesis by (simp add: frame_def set_fact_stamps_def)
qed

lemma update_target_stamps_frame: "frame r (update_target_stamps ext w r d)"
proof (cases "update_facts (targets r ! d)")
  case None
  then show ?thesis by (simp add: update_target_stamps_def frame_refl)
next
  case (Some uf)
  have "frame r (set_fact_stamps r d (update_target_stamps_loop ext w 0 uf (fact_stamps (targets r ! d))))"
    by (rule set_fact_stamps_frame)
       (simp_all add: update_target_stamps_loop_nth tracked_def Some)
  with Some show ?thesis by (simp add: update_target_stamps_def)
qed

lemma restore_fact_stamps_loop_length [simp]:
  "length (restore_fact_stamps_loop buf idx i fids fs) = length fs"
  by (induction fids arbitrary: idx i fs) simp_all

lemma restore_fact_stamps_loop_nth:
  "k < length fs \<Longrightarrow>
   restore_fact_stamps_loop buf idx i fids fs ! k
     = (if i \<le> k \<and> k < i + length fids then buf (idx + (k - i)) else fs ! k)"
proof (induction fids arbitrary: idx i fs)
  case Nil
  show ?case by auto
next
  case (Cons fid fids)
  from Cons.prems have k: "k < length (fs[i := buf idx])" by simp
  show ?case
    using Cons.IH [OF k, of "Suc idx" "Suc i"] Cons.prems
    by (auto simp: nth_list_update intro!: arg_cong [where f = buf])
qed

lemma restore_fact_stamps_frame: "frame r (restore_fact_stamps r d buf)"
proof (cases "update_facts (targets r ! d)")
  case None
  then show ?thesis by (simp add: restore_fact_stamps_def frame_refl)
next
  case (Some uf)
  have "frame r (set_fact_stamps r d
          (restore_fact_stamps_loop buf (d * nfact r) 0 uf (fact_stamps (targets r ! d))))"
    by (rule set_fact_stamps_frame)
       (simp_all add: restore_fact_stamps_loop_nth tracked_def Some)
  with Some show ?thesis by (simp add: restore_fact_stamps_def)
qed

lemma restore_target_stamps_loop_frame: "frame r (restore_target_stamps_loop r dids buf)"
proof (induction dids arbitrary: r)
  case Nil
  show ?case by (simp add: frame_refl)
next
  case (Cons d dids)
  from frame_trans [OF restore_fact_stamps_frame Cons.IH]
  show ?case by simp
qed

lemma walk_frame:
  "frame r (res p) \<Longrightarrow> frame r (res (snd (walk ext tid dids (nu, p))))"
proof (induction dids arbitrary: nu p)
  case Nil
  then show ?case by simp
next
  case (Cons did dids)
  show ?case
  proof (cases "mrp_execute_script ext (script (targets (res p) ! did)) (world p)")
    case (Pair s w')
    let ?q = "p\<lparr>status := s, res := update_target_stamps ext w' (res p) did,
                 world := w', calls := calls p @ [Exec did s w']\<rparr>"
    have "frame r (res ?q)"
      using frame_trans [OF Cons.prems update_target_stamps_frame] by simp
    from Cons.IH [OF this, of True] Cons.IH [OF Cons.prems, of nu] Cons.prems Pair
    show ?thesis by auto
  qed
qed

lemma run_own_frame: "frame r (res p) \<Longrightarrow> frame r (res (run_own ext tid (nu, p)))"
  using frame_trans [OF _ update_target_stamps_frame]
  by (auto simp: run_own_def split: prod.splits)

lemma update_pass_frame: "frame r (res (update_pass ext r w tid))"
proof -
  let ?p0 = "\<lparr>status = TRUE, res = r, world = w, calls = []\<rparr> :: 'a run"
  obtain nu p where np: "walk ext tid (update_targets (targets r ! tid))
           (older_than_facts ext w (targets r ! tid), ?p0) = (nu, p)"
    by (cases "walk ext tid (update_targets (targets r ! tid))
           (older_than_facts ext w (targets r ! tid), ?p0)")
  have "frame r (res ?p0)" by (simp add: frame_refl)
  from walk_frame [OF this, of ext tid "update_targets (targets r ! tid)"
         "older_than_facts ext w (targets r ! tid)"] np
  have "frame r (res p)" by simp
  from run_own_frame [OF this, of ext tid nu] np
  show ?thesis by (simp add: update_pass_def)
qed


lemma save_fact_stamps_loop_apply:
  "save_fact_stamps_loop fs idx i fids buf j
     = (if idx \<le> j \<and> j < idx + length fids then fs ! (i + (j - idx)) else buf j)"
proof (induction fids arbitrary: idx i buf)
  case Nil
  show ?case by auto
next
  case (Cons fid fids)
  have ih: "save_fact_stamps_loop fs (Suc idx) (Suc i) fids (buf(idx := fs ! i)) j
              = (if Suc idx \<le> j \<and> j < Suc idx + length fids
                 then fs ! (Suc i + (j - Suc idx)) else (buf(idx := fs ! i)) j)"
    by (rule Cons.IH)
  show ?case
  proof (cases "Suc idx \<le> j \<and> j < Suc idx + length fids")
    case True
    then have "Suc i + (j - Suc idx) = i + (j - idx)" by arith
    with True ih show ?thesis by simp
  next
    case False
    show ?thesis
    proof (cases "j = idx")
      case True
      with ih show ?thesis by simp
    next
      case ne: False
      from False have c1: "(Suc idx \<le> j \<and> j < Suc idx + length fids) = False" by simp
      from False ne have c2: "(idx \<le> j \<and> j < idx + length (fid # fids)) = False" by auto
      have "save_fact_stamps_loop fs idx i (fid # fids) buf j
              = save_fact_stamps_loop fs (Suc idx) (Suc i) fids (buf(idx := fs ! i)) j"
        by simp
      also have "\<dots> = (buf(idx := fs ! i)) j"
        by (simp only: ih c1 if_False)
      also have "\<dots> = buf j" using ne by simp
      finally show ?thesis by (simp only: c2 if_False)
    qed
  qed
qed

lemma slots_apart:
  assumes "d \<noteq> e" "k < n" "m \<le> (n::nat)"
  shows "\<not> (e * n \<le> d * n + k \<and> d * n + k < e * n + m)"
proof (cases "d < e")
  case True
  then have "Suc d * n \<le> e * n" by (intro mult_le_mono1) simp
  with assms show ?thesis by simp
next
  case False
  with assms have "Suc e * n \<le> d * n" by (intro mult_le_mono1) simp
  with assms show ?thesis by simp
qed

lemma save_fact_stamps_saved:
  assumes d: "stamps_in_bounds r d" and e: "stamps_in_bounds r e"
      and pre: "e = d \<or> saved buf r d"
  shows "saved (save_fact_stamps r e buf) r d"
proof (cases "update_facts (targets r ! e)")
  case None
  with pre show ?thesis
    by (auto simp: save_fact_stamps_def saved_def tracked_def)
next
  case (Some uf)
  show ?thesis
  proof (cases "e = d")
    case True
    with Some show ?thesis
      by (simp add: save_fact_stamps_def saved_def tracked_def save_fact_stamps_loop_apply)
  next
    case False
    with pre have sv: "saved buf r d" by simp
    from e Some have le: "length uf \<le> nfact r" by (simp add: stamps_in_bounds_def)
    have "save_fact_stamps r e buf (d * nfact r + k) = buf (d * nfact r + k)"
      if "tracked (targets r ! d) k" for k
    proof -
      from that d have "k < nfact r"
        by (auto simp: tracked_def stamps_in_bounds_def split: option.splits)
      from slots_apart [OF _ this le, of d e] False
      have "\<not> (e * nfact r \<le> d * nfact r + k \<and> d * nfact r + k < e * nfact r + length uf)"
        by simp
      then show ?thesis
        unfolding save_fact_stamps_def Some save_fact_stamps_loop_apply by auto
    qed
    with sv show ?thesis by (simp add: saved_def)
  qed
qed

lemma save_target_stamps_loop_saved:
  "\<forall>e \<in> set dids. stamps_in_bounds r e \<Longrightarrow> stamps_in_bounds r d \<Longrightarrow>
   d \<in> set dids \<or> saved buf r d \<Longrightarrow>
   saved (save_target_stamps_loop r dids buf) r d"
proof (induction dids arbitrary: buf)
  case Nil
  then show ?case by simp
next
  case (Cons e dids)
  from Cons.prems have eb: "stamps_in_bounds r e" by simp
  show ?case
  proof (cases "e = d \<or> saved buf r d")
    case True
    from save_fact_stamps_saved [OF Cons.prems(2) eb True]
    have "saved (save_fact_stamps r e buf) r d" .
    with Cons.IH [of "save_fact_stamps r e buf"] Cons.prems show ?thesis by simp
  next
    case False
    with Cons.prems have "d \<in> set dids" by auto
    with Cons.IH [of "save_fact_stamps r e buf"] Cons.prems show ?thesis by simp
  qed
qed

text \<open>Restoring one target from a buffer that holds the stamps of \<open>r0\<close>.\<close>

lemma restore_fact_stamps_original:
  assumes fr: "frame r0 r'" and d: "stamps_in_bounds r0 d" and sv: "saved buf r0 d"
  shows "fact_stamps (targets (restore_fact_stamps r' d buf) ! d) = fact_stamps (targets r0 ! d)"
proof -
  from d have dn: "d < ntarget r0" by (simp add: stamps_in_bounds_def)
  from frame_nth [OF fr dn] have so: "stamps_only (targets r0 ! d) (targets r' ! d)" .
  have uf: "update_facts (targets r' ! d) = update_facts (targets r0 ! d)"
    by (rule stamps_only_update_facts [OF so])
  have len: "length (fact_stamps (targets r' ! d)) = length (fact_stamps (targets r0 ! d))"
    using so by (simp add: stamps_only_def)
  have dl: "d < length (targets r')"
    using frame_ntarget [OF fr] dn by (simp add: ntarget_def)
  show ?thesis
  proof (cases "update_facts (targets r0 ! d)")
    case None
    have "fact_stamps (targets r' ! d) = fact_stamps (targets r0 ! d)"
      using so len None by (intro nth_equalityI) (simp_all add: stamps_only_def tracked_def)
    with None uf show ?thesis by (simp add: restore_fact_stamps_def)
  next
    case (Some u)
    have "restore_fact_stamps_loop buf (d * nfact r') 0 u (fact_stamps (targets r' ! d))
            = fact_stamps (targets r0 ! d)"
    proof (rule nth_equalityI)
      show "length (restore_fact_stamps_loop buf (d * nfact r') 0 u (fact_stamps (targets r' ! d)))
              = length (fact_stamps (targets r0 ! d))"
        using len by simp
    next
      fix k
      assume "k < length (restore_fact_stamps_loop buf (d * nfact r') 0 u (fact_stamps (targets r' ! d)))"
      then have k: "k < length (fact_stamps (targets r' ! d))" by simp
      show "restore_fact_stamps_loop buf (d * nfact r') 0 u (fact_stamps (targets r' ! d)) ! k
              = fact_stamps (targets r0 ! d) ! k"
      proof (cases "k < length u")
        case True
        with sv Some have "buf (d * nfact r0 + k) = fact_stamps (targets r0 ! d) ! k"
          by (simp add: saved_def tracked_def)
        with True k show ?thesis
          by (simp add: restore_fact_stamps_loop_nth frame_nfact [OF fr])
      next
        case False
        with so k len Some have "fact_stamps (targets r' ! d) ! k = fact_stamps (targets r0 ! d) ! k"
          by (simp add: stamps_only_def tracked_def)
        with False k show ?thesis by (simp add: restore_fact_stamps_loop_nth)
      qed
    qed
    with Some uf dl show ?thesis
      by (simp add: restore_fact_stamps_def set_fact_stamps_def)
  qed
qed

lemma restore_fact_stamps_other:
  "e \<noteq> d \<Longrightarrow> targets (restore_fact_stamps r' e buf) ! d = targets r' ! d"
  by (simp add: restore_fact_stamps_def set_fact_stamps_def split: option.splits)

lemma restore_target_stamps_loop_original:
  "frame r0 r' \<Longrightarrow> stamps_in_bounds r0 d \<Longrightarrow> saved buf r0 d \<Longrightarrow>
   d \<in> set dids \<or> fact_stamps (targets r' ! d) = fact_stamps (targets r0 ! d) \<Longrightarrow>
   fact_stamps (targets (restore_target_stamps_loop r' dids buf) ! d) = fact_stamps (targets r0 ! d)"
proof (induction dids arbitrary: r')
  case Nil
  then show ?case by simp
next
  case (Cons e dids)
  have fr: "frame r0 (restore_fact_stamps r' e buf)"
    by (rule frame_trans [OF Cons.prems(1) restore_fact_stamps_frame])
  show ?case
  proof (cases "e = d")
    case True
    from restore_fact_stamps_original [OF Cons.prems(1-3)] True
    have "fact_stamps (targets (restore_fact_stamps r' e buf) ! d) = fact_stamps (targets r0 ! d)"
      by simp
    with Cons.IH [OF fr Cons.prems(2,3)] show ?thesis by simp
  next
    case False
    with Cons.prems(4) restore_fact_stamps_other [OF False, of r' buf]
    have "d \<in> set dids \<or>
          fact_stamps (targets (restore_fact_stamps r' e buf) ! d) = fact_stamps (targets r0 ! d)"
      by auto
    with Cons.IH [OF fr Cons.prems(2,3)] show ?thesis by simp
  qed
qed

text \<open>Saving before the pass and restoring after it gives back the stamps of the closure.\<close>

lemma save_pass_restore:
  assumes t: "tid < ntarget r"
      and ok: "\<forall>e \<in> set (update_targets (targets r ! tid)). stamps_in_bounds r e"
      and d: "d \<in> set (update_targets (targets r ! tid))"
  shows "fact_stamps (targets (restore_target_stamps (res (update_pass ext r w tid)) tid
            (save_target_stamps r tid stamps)) ! d) = fact_stamps (targets r ! d)"
proof -
  let ?r' = "res (update_pass ext r w tid)"
  have fr: "frame r ?r'" by (rule update_pass_frame)
  from frame_nth [OF fr t]
  have "targets ?r' ! tid = (targets r ! tid)\<lparr>fact_stamps := fact_stamps (targets ?r' ! tid)\<rparr>"
    by (simp add: stamps_only_def)
  then have "update_targets (targets ?r' ! tid) = update_targets ((targets r ! tid)\<lparr>fact_stamps := fact_stamps (targets ?r' ! tid)\<rparr>)"
    by simp
  then have ut: "update_targets (targets ?r' ! tid) = update_targets (targets r ! tid)"
    by simp
  from ok d have db: "stamps_in_bounds r d" by simp
  have sv: "saved (save_target_stamps r tid stamps) r d"
    unfolding save_target_stamps_def
    by (rule save_target_stamps_loop_saved [OF ok db]) (simp add: d)
  show ?thesis
    unfolding restore_target_stamps_def ut
    by (rule restore_target_stamps_loop_original [OF fr db sv]) (simp add: d)
qed

subsection \<open>The calls of an update\<close>

lemma failed_iff: "failed evs \<longleftrightarrow> (\<exists>d s w. Exec d s w \<in> set evs \<and> s \<le> 0)"
proof
  assume "failed evs"
  then obtain e where e: "e \<in> set evs" "exec_failed e"
    by (auto simp: failed_def list_ex_iff)
  show "\<exists>d s w. Exec d s w \<in> set evs \<and> s \<le> 0"
  proof (cases e)
    case (Exec d s w)
    with e show ?thesis by auto
  qed (use e in simp_all)
next
  assume "\<exists>d s w. Exec d s w \<in> set evs \<and> s \<le> 0"
  then obtain d s w where "Exec d s w \<in> set evs" "s \<le> 0" by blast
  then have "\<exists>e \<in> set evs. exec_failed e"
    by (intro bexI [of _ "Exec d s w"]) simp_all
  then show "failed evs" by (simp add: failed_def list_ex_iff)
qed

lemma walk_is_exec:
  "list_all is_exec (calls p) \<Longrightarrow> list_all is_exec (calls (snd (walk ext tid dids (nu, p))))"
proof (induction dids arbitrary: nu p)
  case Nil
  then show ?case by simp
next
  case (Cons did dids)
  show ?case
  proof (cases "mrp_execute_script ext (script (targets (res p) ! did)) (world p)")
    case (Pair s w')
    let ?q = "p\<lparr>status := s, res := update_target_stamps ext w' (res p) did,
                 world := w', calls := calls p @ [Exec did s w']\<rparr>"
    have "list_all is_exec (calls ?q)" using Cons.prems by simp
    from Cons.IH [OF this, of True] Cons.IH [OF Cons.prems, of nu] Cons.prems Pair
    show ?thesis by auto
  qed
qed

lemma run_own_is_exec:
  "list_all is_exec (calls p) \<Longrightarrow> list_all is_exec (calls (run_own ext tid (nu, p)))"
  by (auto simp: run_own_def split: prod.splits)

lemma run_own_status_failed:
  "(0 < status p \<longleftrightarrow> \<not> failed (calls p)) \<Longrightarrow>
   (0 < status (run_own ext tid (nu, p)) \<longleftrightarrow> \<not> failed (calls (run_own ext tid (nu, p))))"
  by (auto simp: run_own_def split: prod.splits)

lemma update_pass_is_exec: "list_all is_exec (calls (update_pass ext r w tid))"
proof -
  let ?p0 = "\<lparr>status = TRUE, res = r, world = w, calls = []\<rparr> :: 'a run"
  obtain nu p where np: "walk ext tid (update_targets (targets r ! tid))
           (older_than_facts ext w (targets r ! tid), ?p0) = (nu, p)"
    by (cases "walk ext tid (update_targets (targets r ! tid))
           (older_than_facts ext w (targets r ! tid), ?p0)")
  have "list_all is_exec (calls ?p0)" by simp
  from walk_is_exec [OF this, of ext tid "update_targets (targets r ! tid)"
         "older_than_facts ext w (targets r ! tid)"] np
  have "list_all is_exec (calls p)" by simp
  from run_own_is_exec [OF this, of ext tid nu] np
  show ?thesis by (simp add: update_pass_def)
qed

lemma update_pass_status_failed:
  "0 < status (update_pass ext r w tid) \<longleftrightarrow> \<not> failed (calls (update_pass ext r w tid))"
proof -
  let ?p0 = "\<lparr>status = TRUE, res = r, world = w, calls = []\<rparr> :: 'a run"
  obtain nu p where np: "walk ext tid (update_targets (targets r ! tid))
           (older_than_facts ext w (targets r ! tid), ?p0) = (nu, p)"
    by (cases "walk ext tid (update_targets (targets r ! tid))
           (older_than_facts ext w (targets r ! tid), ?p0)")
  have "\<not> failed (calls ?p0)" "0 < status ?p0" by (simp_all add: TRUE_def)
  from walk_status_failed [OF this, of ext tid "update_targets (targets r ! tid)"
         "older_than_facts ext w (targets r ! tid)"] np
  have "0 < status p \<longleftrightarrow> \<not> failed (calls p)" by simp
  from run_own_status_failed [OF this, of ext tid nu] np
  show ?thesis by (simp add: update_pass_def)
qed

lemma is_exec_no_tx:
  "list_all is_exec evs \<Longrightarrow> TxRollback \<notin> set evs \<and> TxCommit b \<notin> set evs \<and> TxStart h \<notin> set evs"
  by (auto simp: list_all_iff)

lemma failed_Cons_start [simp]: "failed (TxStart h # evs) = failed evs"
  by (simp add: failed_def)

lemma failed_append_tx [simp]:
  "failed (evs @ [TxRollback]) = failed evs" "failed (evs @ [TxCommit b]) = failed evs"
  by (simp_all add: failed_def)

text \<open>The four ways through \<open>update_target\<close>.\<close>

lemma update_target_cases:
  fixes ext :: "'w extern" and stamps r w tid
  defines "q \<equiv> update_target ext stamps r w tid"
  defines "w1 \<equiv> snd (start_transaction ext w)"
  defines "p \<equiv> update_pass ext r w1 tid"
  defines "buf \<equiv> save_target_stamps r tid stamps"
  obtains
    (no_tx) "fst (start_transaction ext w) = None"
      "q = \<lparr>status = errno_status ext w1, res = r, world = w1, calls = [TxStart None]\<rparr>"
  | (rolled_back) tx where "fst (start_transaction ext w) = Some tx" "failed (calls p)"
      "q = \<lparr>status = status p, res = restore_target_stamps (res p) tid buf,
            world = rollback_transaction ext tx (world p),
            calls = TxStart (Some tx) # calls p @ [TxRollback]\<rparr>"
  | (commit_failed) tx where "fst (start_transaction ext w) = Some tx" "\<not> failed (calls p)"
      "fst (commit_transaction ext tx (world p)) = False"
      "q = \<lparr>status = errno_status ext (snd (commit_transaction ext tx (world p))),
            res = restore_target_stamps (res p) tid buf,
            world = snd (commit_transaction ext tx (world p)),
            calls = TxStart (Some tx) # calls p @ [TxCommit False]\<rparr>"
  | (committed) tx where "fst (start_transaction ext w) = Some tx" "\<not> failed (calls p)"
      "fst (commit_transaction ext tx (world p)) = True"
      "q = \<lparr>status = status p, res = res p,
            world = snd (commit_transaction ext tx (world p)),
            calls = TxStart (Some tx) # calls p @ [TxCommit True]\<rparr>"
proof (cases "start_transaction ext w")
  case (Pair h w1')
  then have w1: "w1 = w1'" by (simp add: w1_def)
  show ?thesis
  proof (cases h)
    case None
    with Pair w1 have "q = \<lparr>status = errno_status ext w1, res = r, world = w1, calls = [TxStart None]\<rparr>"
      by (simp add: q_def update_target_def)
    with no_tx Pair None show ?thesis by simp
  next
    case (Some tx)
    have sf: "0 < status p \<longleftrightarrow> \<not> failed (calls p)"
      unfolding p_def by (rule update_pass_status_failed)
    show ?thesis
    proof (cases "failed (calls p)")
      case True
      with sf have "status p \<le> 0" by simp
      with Pair Some w1 have "q = \<lparr>status = status p, res = restore_target_stamps (res p) tid buf,
            world = rollback_transaction ext tx (world p),
            calls = TxStart (Some tx) # calls p @ [TxRollback]\<rparr>"
        by (simp add: q_def update_target_def resolve_def p_def buf_def Let_def)
      with rolled_back [of tx] Pair Some True show ?thesis by simp
    next
      case False
      with sf have pos: "\<not> status p \<le> 0" by simp
      obtain ok w' where cm: "commit_transaction ext tx (world p) = (ok, w')"
        by (cases "commit_transaction ext tx (world p)")
      show ?thesis
      proof (cases ok)
        case True
        with Pair Some w1 pos cm have "q = \<lparr>status = status p, res = res p,
            world = snd (commit_transaction ext tx (world p)),
            calls = TxStart (Some tx) # calls p @ [TxCommit True]\<rparr>"
          by (simp add: q_def update_target_def resolve_def p_def buf_def Let_def)
        with committed [of tx] Pair Some False True cm show ?thesis by simp
      next
        case nok: False
        with Pair Some w1 pos cm have "q = \<lparr>status = errno_status ext (snd (commit_transaction ext tx (world p))),
            res = restore_target_stamps (res p) tid buf,
            world = snd (commit_transaction ext tx (world p)),
            calls = TxStart (Some tx) # calls p @ [TxCommit False]\<rparr>"
          by (simp add: q_def update_target_def resolve_def p_def buf_def Let_def)
        with commit_failed [of tx] Pair Some False nok cm show ?thesis by simp
      qed
    qed
  qed
qed

subsection \<open>Failure restores the checkpoint\<close>

text \<open>
  C1. Let the subject be a target of the resolver and let every target of its update
  order be within the bounds the C code relies on. If the update fails, that is, some
  execution returned a status \<open>\<le> 0\<close> or the commit failed, then after \<open>update_target\<close>
  the \<open>fact_stamps\<close> of every target in the subject's update order are what they were
  before the call, whatever the executed scripts did to the facts and whatever
  \<open>update_target_stamps\<close> had written in between.
\<close>

theorem rollback_restores_stamps:
  assumes t: "tid < ntarget r"
      and ok: "\<forall>e \<in> set (update_targets (targets r ! tid)). stamps_in_bounds r e"
      and fl: "(\<exists>d s w'. Exec d s w' \<in> set (calls (update_target ext stamps r w tid)) \<and> s \<le> 0)
               \<or> TxCommit False \<in> set (calls (update_target ext stamps r w tid))"
  shows "\<forall>d \<in> set (update_targets (targets r ! tid)).
           fact_stamps (targets (res (update_target ext stamps r w tid)) ! d)
             = fact_stamps (targets r ! d)"
proof
  fix d
  assume d: "d \<in> set (update_targets (targets r ! tid))"
  let ?p = "update_pass ext r (snd (start_transaction ext w)) tid"
  note restore = save_pass_restore [OF t ok d, of ext "snd (start_transaction ext w)" stamps]
  from fl have fl': "failed (calls (update_target ext stamps r w tid))
                     \<or> TxCommit False \<in> set (calls (update_target ext stamps r w tid))"
    by (simp add: failed_iff)
  have ne: "TxCommit False \<notin> set (calls ?p)"
    by (rule is_exec_no_tx [OF update_pass_is_exec, THEN conjunct2, THEN conjunct1])
  show "fact_stamps (targets (res (update_target ext stamps r w tid)) ! d)
          = fact_stamps (targets r ! d)"
  proof (cases rule: update_target_cases [where ext = ext and stamps = stamps and r = r and w = w and tid = tid])
    case no_tx
    with fl' show ?thesis by (simp add: failed_def)
  next
    case (rolled_back tx)
    with restore show ?thesis by simp
  next
    case (commit_failed tx)
    with restore show ?thesis by simp
  next
    case (committed tx)
    with fl' ne show ?thesis by simp
  qed
qed

theorem rollback_restores_stamps_witness:
  "1 < ntarget (demo_resolver [0] ''bump'' [0, 0] ''fail'') \<and>
   update_targets (targets (demo_resolver [0] ''bump'' [0, 0] ''fail'') ! 1) = [0, 1] \<and>
   stamps_in_bounds (demo_resolver [0] ''bump'' [0, 0] ''fail'') 0 \<and>
   stamps_in_bounds (demo_resolver [0] ''bump'' [0, 0] ''fail'') 1 \<and>
   calls (update_target (demo_extern True) (\<lambda>_. 0)
      (demo_resolver [0] ''bump'' [0, 0] ''fail'') [1, 1] 1)
     = [TxStart (Some 7), Exec 0 1 [2, 2], Exec 1 0 [2, 2], TxRollback] \<and>
   fact_stamps (targets (res (update_target (demo_extern True) (\<lambda>_. 0)
       (demo_resolver [0] ''bump'' [0, 0] ''fail'') [1, 1] 1)) ! 0)
     = fact_stamps (targets (demo_resolver [0] ''bump'' [0, 0] ''fail'') ! 0) \<and>
   fact_stamps (targets (res (update_target (demo_extern True) (\<lambda>_. 0)
       (demo_resolver [0] ''bump'' [0, 0] ''fail'') [1, 1] 1)) ! 1)
     = fact_stamps (targets (demo_resolver [0] ''bump'' [0, 0] ''fail'') ! 1)"
proof -
  let ?r = "demo_resolver [0] ''bump'' [0, 0] ''fail''"
  let ?q = "update_target (demo_extern True) (\<lambda>_. 0) ?r [1, 1] 1"
  have a: "1 < ntarget ?r" by (simp add: demo_resolver_def ntarget_def)
  have u: "update_targets (targets ?r ! 1) = [0, 1]"
    by (simp add: demo_resolver_def demo_target_def)
  have b0: "stamps_in_bounds ?r 0"
    by (simp add: demo_resolver_def demo_target_def stamps_in_bounds_def ntarget_def nfact_def)
  have b1: "stamps_in_bounds ?r 1"
    by (simp add: demo_resolver_def demo_target_def stamps_in_bounds_def ntarget_def nfact_def)
  from u b0 b1 have b: "\<forall>e \<in> set (update_targets (targets ?r ! 1)). stamps_in_bounds ?r e"
    by simp
  have c: "calls ?q = [TxStart (Some 7), Exec 0 1 [2, 2], Exec 1 0 [2, 2], TxRollback]"
    by (simp add: demo_defs)
  then have "Exec 1 0 [2, 2] \<in> set (calls ?q) \<and> (0::int) \<le> 0" by simp
  then have d: "(\<exists>d s w'. Exec d s w' \<in> set (calls ?q) \<and> s \<le> 0)
                \<or> TxCommit False \<in> set (calls ?q)"
    by blast
  from rollback_restores_stamps [OF a b d] u
  have "fact_stamps (targets (res ?q) ! 0) = fact_stamps (targets ?r ! 0)"
       "fact_stamps (targets (res ?q) ! 1) = fact_stamps (targets ?r ! 1)"
    by simp_all
  with a u b0 b1 c show ?thesis by simp
qed

subsection \<open>Rollback, commit and the returned status\<close>

lemma errno_status_negative: "0 \<le> errno ext w \<Longrightarrow> errno_status ext w < 0"
  by (simp add: errno_status_def EINVAL_def)

text \<open>
  C10. \<open>rollback_transaction\<close> is called exactly when some execution returned a status
  \<open>\<le> 0\<close>. When the commit was attempted and failed, every execution had succeeded,
  \<open>rollback_transaction\<close> is not called, the status is \<open>-errno\<close> (or \<open>-EINVAL\<close>),
  negative for an \<open>errno\<close> that is not negative, and the saved stamps are restored: for a
  subject of the resolver whose update order is within the bounds of the arrays, the
  \<open>fact_stamps\<close> of every target of the update order are those from before the call.
\<close>

theorem rollback_only_after_failed_execution:
  "(TxRollback \<in> set (calls (update_target ext stamps r w tid)) \<longleftrightarrow>
      (\<exists>d s w'. Exec d s w' \<in> set (calls (update_target ext stamps r w tid)) \<and> s \<le> 0)) \<and>
   (TxCommit False \<in> set (calls (update_target ext stamps r w tid)) \<longrightarrow>
      (\<forall>d s w'. Exec d s w' \<in> set (calls (update_target ext stamps r w tid)) \<longrightarrow> 0 < s) \<and>
      TxRollback \<notin> set (calls (update_target ext stamps r w tid)) \<and>
      status (update_target ext stamps r w tid)
        = errno_status ext (world (update_target ext stamps r w tid)) \<and>
      (0 \<le> errno ext (world (update_target ext stamps r w tid)) \<longrightarrow>
         status (update_target ext stamps r w tid) < 0) \<and>
      (tid < ntarget r \<and>
       (\<forall>e \<in> set (update_targets (targets r ! tid)). stamps_in_bounds r e) \<longrightarrow>
         (\<forall>d \<in> set (update_targets (targets r ! tid)).
            fact_stamps (targets (res (update_target ext stamps r w tid)) ! d)
              = fact_stamps (targets r ! d))))"
proof -
  let ?q = "update_target ext stamps r w tid"
  let ?p = "update_pass ext r (snd (start_transaction ext w)) tid"
  have ie: "list_all is_exec (calls ?p)" by (rule update_pass_is_exec)
  have nr: "TxRollback \<notin> set (calls ?p)" using is_exec_no_tx [OF ie] by simp
  have nc: "TxCommit False \<notin> set (calls ?p)" using is_exec_no_tx [OF ie, where b = False] by simp
  have all_pos: "\<not> failed evs \<Longrightarrow> \<forall>d s w'. Exec d s w' \<in> set evs \<longrightarrow> 0 < s" for evs :: "'a event list"
    by (auto simp: failed_iff not_le)
  show ?thesis
  proof (cases rule: update_target_cases [where ext = ext and stamps = stamps and r = r and w = w and tid = tid])
    case no_tx
    then show ?thesis by simp
  next
    case (rolled_back tx)
    from rolled_back(2) have "failed (calls ?q)" by (simp add: rolled_back(3))
    then have "\<exists>d s w'. Exec d s w' \<in> set (calls ?q) \<and> s \<le> 0" by (simp add: failed_iff)
    moreover have "TxRollback \<in> set (calls ?q)" by (simp add: rolled_back(3))
    moreover have "TxCommit False \<notin> set (calls ?q)" using nc by (simp add: rolled_back(3))
    ultimately show ?thesis by blast
  next
    case (commit_failed tx)
    from commit_failed(2) have nf: "\<not> failed (calls ?q)" by (simp add: commit_failed(4))
    then have "\<not> (\<exists>d s w'. Exec d s w' \<in> set (calls ?q) \<and> s \<le> 0)" by (simp add: failed_iff)
    moreover have "TxRollback \<notin> set (calls ?q)" using nr by (simp add: commit_failed(4))
    moreover have "\<forall>d s w'. Exec d s w' \<in> set (calls ?q) \<longrightarrow> 0 < s"
      by (rule all_pos [OF nf])
    moreover have "fact_stamps (targets (res ?q) ! d) = fact_stamps (targets r ! d)"
      if "tid < ntarget r"
        and "\<forall>e \<in> set (update_targets (targets r ! tid)). stamps_in_bounds r e"
        and "d \<in> set (update_targets (targets r ! tid))" for d
      using save_pass_restore [OF that, of ext "snd (start_transaction ext w)" stamps]
      by (simp add: commit_failed(4))
    moreover have "status ?q = errno_status ext (world ?q)" by (simp add: commit_failed(4))
    ultimately show ?thesis using errno_status_negative [of ext "world ?q"] by simp
  next
    case (committed tx)
    from committed(2) have "\<not> failed (calls ?q)" by (simp add: committed(4))
    then have "\<not> (\<exists>d s w'. Exec d s w' \<in> set (calls ?q) \<and> s \<le> 0)" by (simp add: failed_iff)
    moreover have "TxRollback \<notin> set (calls ?q)" using nr by (simp add: committed(4))
    moreover have "TxCommit False \<notin> set (calls ?q)" using nc by (simp add: committed(4))
    ultimately show ?thesis by blast
  qed
qed

theorem rollback_only_after_failed_execution_witness:
  "calls (update_target (demo_extern False) (\<lambda>_. 0)
      (demo_resolver [0] ''bump'' [0, 0] ''fine'') [1, 1] 1)
     = [TxStart (Some 7), Exec 0 1 [2, 2], Exec 1 2 [2, 2], TxCommit False] \<and>
   0 \<le> errno (demo_extern False) (world (update_target (demo_extern False) (\<lambda>_. 0)
      (demo_resolver [0] ''bump'' [0, 0] ''fine'') [1, 1] 1)) \<and>
   TxRollback \<notin> set (calls (update_target (demo_extern False) (\<lambda>_. 0)
      (demo_resolver [0] ''bump'' [0, 0] ''fine'') [1, 1] 1)) \<and>
   status (update_target (demo_extern False) (\<lambda>_. 0)
      (demo_resolver [0] ''bump'' [0, 0] ''fine'') [1, 1] 1) < 0 \<and>
   1 < ntarget (demo_resolver [0] ''bump'' [0, 0] ''fine'') \<and>
   update_targets (targets (demo_resolver [0] ''bump'' [0, 0] ''fine'') ! 1) = [0, 1] \<and>
   stamps_in_bounds (demo_resolver [0] ''bump'' [0, 0] ''fine'') 0 \<and>
   stamps_in_bounds (demo_resolver [0] ''bump'' [0, 0] ''fine'') 1 \<and>
   fact_stamps (targets (res (update_target (demo_extern False) (\<lambda>_. 0)
       (demo_resolver [0] ''bump'' [0, 0] ''fine'') [1, 1] 1)) ! 0)
     = fact_stamps (targets (demo_resolver [0] ''bump'' [0, 0] ''fine'') ! 0) \<and>
   fact_stamps (targets (res (update_target (demo_extern False) (\<lambda>_. 0)
       (demo_resolver [0] ''bump'' [0, 0] ''fine'') [1, 1] 1)) ! 1)
     = fact_stamps (targets (demo_resolver [0] ''bump'' [0, 0] ''fine'') ! 1) \<and>
   TxRollback \<in> set (calls (update_target (demo_extern True) (\<lambda>_. 0)
      (demo_resolver [0] ''bump'' [0, 0] ''fail'') [1, 1] 1)) \<and>
   Exec 1 0 [2, 2] \<in> set (calls (update_target (demo_extern True) (\<lambda>_. 0)
      (demo_resolver [0] ''bump'' [0, 0] ''fail'') [1, 1] 1))"
proof -
  let ?r = "demo_resolver [0] ''bump'' [0, 0] ''fine''"
  let ?q = "update_target (demo_extern False) (\<lambda>_. 0) ?r [1, 1] 1"
  let ?f = "update_target (demo_extern True) (\<lambda>_. 0)
      (demo_resolver [0] ''bump'' [0, 0] ''fail'') [1, 1] 1"
  have cs: "calls ?q = [TxStart (Some 7), Exec 0 1 [2, 2], Exec 1 2 [2, 2], TxCommit False]"
    by (simp add: demo_defs)
  then have c: "TxCommit False \<in> set (calls ?q)" by simp
  have e: "0 \<le> errno (demo_extern False) (world ?q)"
    by (simp add: demo_extern_def)
  have a: "1 < ntarget ?r" by (simp add: demo_resolver_def ntarget_def)
  have u: "update_targets (targets ?r ! 1) = [0, 1]"
    by (simp add: demo_resolver_def demo_target_def)
  have b0: "stamps_in_bounds ?r 0"
    by (simp add: demo_resolver_def demo_target_def stamps_in_bounds_def ntarget_def nfact_def)
  have b1: "stamps_in_bounds ?r 1"
    by (simp add: demo_resolver_def demo_target_def stamps_in_bounds_def ntarget_def nfact_def)
  from u b0 b1 have b: "\<forall>e \<in> set (update_targets (targets ?r ! 1)). stamps_in_bounds ?r e"
    by simp
  note T = rollback_only_after_failed_execution
         [of "demo_extern False" "\<lambda>_. 0" ?r "[1, 1]" 1]
  from T c e have g: "TxRollback \<notin> set (calls ?q)" "status ?q < 0" by blast+
  from T c a b
  have "\<forall>d \<in> set (update_targets (targets ?r ! 1)).
          fact_stamps (targets (res ?q) ! d) = fact_stamps (targets ?r ! d)"
    by blast
  with u have st: "fact_stamps (targets (res ?q) ! 0) = fact_stamps (targets ?r ! 0)"
                  "fact_stamps (targets (res ?q) ! 1) = fact_stamps (targets ?r ! 1)"
    by simp_all
  have x: "Exec 1 0 [2, 2] \<in> set (calls ?f) \<and> (0::int) \<le> 0"
    by (simp add: demo_defs)
  then have "\<exists>d s w'. Exec d s w' \<in> set (calls ?f) \<and> s \<le> 0" by blast
  with rollback_only_after_failed_execution
         [of "demo_extern True" "\<lambda>_. 0" "demo_resolver [0] ''bump'' [0, 0] ''fail''" "[1, 1]" 1]
  have r: "TxRollback \<in> set (calls ?f)" by blast
  from cs e g a u b0 b1 st x r show ?thesis by simp
qed

lemma last_status_append_exec [simp]: "last_status s (evs @ [Exec d s' w]) = s'"
  by (induction s evs rule: last_status.induct) simp_all

lemma last_status_append_tx [simp]:
  "last_status s (evs @ [TxCommit b]) = last_status s evs"
  "last_status s (evs @ [TxRollback]) = last_status s evs"
  by (induction s evs rule: last_status.induct) simp_all







subsection \<open>What a committed pass leaves in the targets\<close>

lemma fail_step_inv:
  assumes inv: "refreshed_so_far ext r p" and s: "s \<le> 0" and d: "d < length (targets r)"
  shows "refreshed_so_far ext r (p\<lparr>status := s, world := w', calls := calls p @ [Exec d s w']\<rparr>)"
  using inv s d unfolding refreshed_so_far_def by auto

lemma exec_step_inv:
  assumes inv: "refreshed_so_far ext r p" and d: "d < length (targets r)"
      and fresh: "\<forall>s w'. Exec d s w' \<notin> set (calls p)"
  shows "refreshed_so_far ext r
           (p\<lparr>status := s, res := update_target_stamps ext w' (res p) d, world := w',
              calls := calls p @ [Exec d s w']\<rparr>)"
proof -
  from inv have len: "length (targets (res p)) = length (targets r)"
    by (simp add: refreshed_so_far_def)
  from inv d fresh have same: "targets (res p) ! d = targets r ! d"
    by (simp add: refreshed_so_far_def)
  let ?ts = "targets (update_target_stamps ext w' (res p) d)"
  have ts: "?ts = (targets (res p))[d := (targets r ! d)\<lparr>fact_stamps := refreshed ext w' (targets r ! d)\<rparr>]"
    by (simp add: update_target_stamps_refresh spec_refresh_def same)
  have at_d: "?ts ! d = (targets r ! d)\<lparr>fact_stamps := refreshed ext w' (targets r ! d)\<rparr>"
    using d len by (simp add: ts)
  have other: "?ts ! e = targets (res p) ! e" if "e \<noteq> d" for e
    using that by (simp add: ts)
  show ?thesis
    unfolding refreshed_so_far_def
  proof (intro conjI allI impI)
    show "length (targets (res (p\<lparr>status := s, res := update_target_stamps ext w' (res p) d,
            world := w', calls := calls p @ [Exec d s w']\<rparr>))) = length (targets r)"
      using len by (simp add: ts)
  next
    fix e s2 w2
    assume "Exec e s2 w2 \<in> set (calls (p\<lparr>status := s, res := update_target_stamps ext w' (res p) d,
            world := w', calls := calls p @ [Exec d s w']\<rparr>))"
    with inv d show "e < length (targets r)"
      by (auto simp: refreshed_so_far_def)
  next
    fix e s2 w2
    assume ev: "Exec e s2 w2 \<in> set (calls (p\<lparr>status := s, res := update_target_stamps ext w' (res p) d,
            world := w', calls := calls p @ [Exec d s w']\<rparr>))"
      and pos: "0 < s2"
    show "targets (res (p\<lparr>status := s, res := update_target_stamps ext w' (res p) d,
            world := w', calls := calls p @ [Exec d s w']\<rparr>)) ! e
          = (targets r ! e)\<lparr>fact_stamps := refreshed ext w2 (targets r ! e)\<rparr>"
    proof (cases "e = d")
      case True
      with ev fresh have "w2 = w'" by auto
      with True at_d show ?thesis by simp
    next
      case False
      with ev have "Exec e s2 w2 \<in> set (calls p)" by auto
      with inv pos have "targets (res p) ! e
          = (targets r ! e)\<lparr>fact_stamps := refreshed ext w2 (targets r ! e)\<rparr>"
        unfolding refreshed_so_far_def by blast
      with other [OF False] show ?thesis by simp
    qed
  next
    fix e
    assume e: "e < length (targets r)"
      and ne: "\<forall>s2 w2. Exec e s2 w2 \<notin> set (calls (p\<lparr>status := s,
            res := update_target_stamps ext w' (res p) d,
            world := w', calls := calls p @ [Exec d s w']\<rparr>))"
    then have ed: "e \<noteq> d" by auto
    from ne have "\<forall>s2 w2. Exec e s2 w2 \<notin> set (calls p)" by auto
    with inv e have "targets (res p) ! e = targets r ! e"
      by (simp add: refreshed_so_far_def)
    with other [OF ed] show "targets (res (p\<lparr>status := s,
            res := update_target_stamps ext w' (res p) d,
            world := w', calls := calls p @ [Exec d s w']\<rparr>)) ! e = targets r ! e"
      by simp
  qed
qed

lemma walk_refreshed:
  "refreshed_so_far ext r p \<Longrightarrow>
   \<forall>d \<in> insert tid (set dids). \<forall>s w'. Exec d s w' \<notin> set (calls p) \<Longrightarrow>
   distinct dids \<Longrightarrow> \<forall>e \<in> set dids. e < length (targets r) \<Longrightarrow>
   refreshed_so_far ext r (snd (walk ext tid dids (nu, p))) \<and>
   (\<forall>s w'. Exec tid s w' \<notin> set (calls (snd (walk ext tid dids (nu, p)))))"
proof (induction dids arbitrary: nu p)
  case Nil
  then show ?case by simp
next
  case (Cons did dids)
  from Cons.prems have did: "did < length (targets r)" by simp
  from Cons.prems have fresh: "\<forall>s w'. Exec did s w' \<notin> set (calls p)" by simp
  from Cons.prems have rest: "distinct dids" "\<forall>e \<in> set dids. e < length (targets r)" by simp_all
  show ?case
  proof (cases "did = tid")
    case True
    with Cons.prems show ?thesis by simp
  next
    case ne: False
    obtain s w' where ex: "mrp_execute_script ext (script (targets (res p) ! did)) (world p) = (s, w')"
      by (cases "mrp_execute_script ext (script (targets (res p) ! did)) (world p)")
    let ?f = "p\<lparr>status := s, world := w', calls := calls p @ [Exec did s w']\<rparr>"
    let ?q = "p\<lparr>status := s, res := update_target_stamps ext w' (res p) did,
                 world := w', calls := calls p @ [Exec did s w']\<rparr>"
    have f1: "refreshed_so_far ext r ?f" if "s \<le> 0"
      by (rule fail_step_inv [OF Cons.prems(1) that did])
    have f2: "\<forall>s2 w2. Exec tid s2 w2 \<notin> set (calls ?f)"
      using Cons.prems(2) ne by auto
    have q1: "refreshed_so_far ext r ?q"
      by (rule exec_step_inv [OF Cons.prems(1) did fresh])
    have q2: "\<forall>d \<in> insert tid (set dids). \<forall>s2 w2. Exec d s2 w2 \<notin> set (calls ?q)"
      using Cons.prems(2,3) ne by auto
    have p2: "\<forall>d \<in> insert tid (set dids). \<forall>s2 w2. Exec d s2 w2 \<notin> set (calls p)"
      using Cons.prems(2) by auto
    from Cons.IH [OF q1 q2 rest, of True] Cons.IH [OF Cons.prems(1) p2 rest, of nu] f1 f2 ne ex
    show ?thesis by auto
  qed
qed

lemma run_own_refreshed:
  assumes inv: "refreshed_so_far ext r p" and t: "tid < length (targets r)"
      and fresh: "\<forall>s w'. Exec tid s w' \<notin> set (calls p)"
  shows "refreshed_so_far ext r (run_own ext tid (nu, p))"
proof (cases "mrp_execute_script ext (script (targets (res p) ! tid)) (world p)")
  case (Pair s w')
  from exec_step_inv [OF inv t fresh, of s w'] fail_step_inv [OF inv _ t, of s w'] Pair inv
  show ?thesis by (auto simp: run_own_def)
qed

lemma update_pass_refreshed:
  assumes t: "tid < ntarget r"
      and bnd: "\<forall>e \<in> set (update_targets (targets r ! tid)). e < ntarget r"
      and dist: "distinct (update_targets (targets r ! tid))"
  shows "refreshed_so_far ext r (update_pass ext r w tid)"
proof -
  let ?p0 = "\<lparr>status = TRUE, res = r, world = w, calls = []\<rparr> :: 'a run"
  obtain nu p where np: "walk ext tid (update_targets (targets r ! tid))
           (older_than_facts ext w (targets r ! tid), ?p0) = (nu, p)"
    by (cases "walk ext tid (update_targets (targets r ! tid))
           (older_than_facts ext w (targets r ! tid), ?p0)")
  have i0: "refreshed_so_far ext r ?p0" by (simp add: refreshed_so_far_def)
  have n0: "\<forall>d \<in> insert tid (set (update_targets (targets r ! tid))).
              \<forall>s w'. Exec d s w' \<notin> set (calls ?p0)" by simp
  from bnd have b: "\<forall>e \<in> set (update_targets (targets r ! tid)). e < length (targets r)"
    by (simp add: ntarget_def)
  from walk_refreshed [OF i0 n0 dist b, of "older_than_facts ext w (targets r ! tid)"] np
  have "refreshed_so_far ext r p" "\<forall>s w'. Exec tid s w' \<notin> set (calls p)" by simp_all
  from run_own_refreshed [OF this(1) _ this(2), of nu] t np
  show ?thesis by (simp add: update_pass_def ntarget_def)
qed

lemma frame_stamp: "frame r r' \<Longrightarrow> d < ntarget r \<Longrightarrow> stamp (targets r' ! d) = stamp (targets r ! d)"
proof -
  assume "frame r r'" "d < ntarget r"
  from frame_nth [OF this]
  have "targets r' ! d = (targets r ! d)\<lparr>fact_stamps := fact_stamps (targets r' ! d)\<rparr>"
    by (simp add: stamps_only_def)
  then have "stamp (targets r' ! d) = stamp ((targets r ! d)\<lparr>fact_stamps := fact_stamps (targets r' ! d)\<rparr>)"
    by simp
  then show ?thesis by simp
qed

text \<open>
  C4, as amended. Let the subject and the targets of its update order be targets of the
  resolver and the update order list no target twice. After an update that was committed,
  every procedure that ran returned \<open>> 0\<close>, and the target it belongs to, subject or
  dependency, holds in the tracked positions of \<open>fact_stamps\<close> the stamps the facts had
  when that procedure returned, the other positions being as before. The \<open>stamp\<close> of
  every target is what it was: the pass does not raise it.
\<close>

theorem commit_refreshes_fact_stamps:
  assumes t: "tid < ntarget r"
      and bnd: "\<forall>e \<in> set (update_targets (targets r ! tid)). e < ntarget r"
      and dist: "distinct (update_targets (targets r ! tid))"
      and cm: "TxCommit True \<in> set (calls (update_target ext stamps r w tid))"
  shows "(\<forall>d < ntarget r.
            stamp (targets (res (update_target ext stamps r w tid)) ! d) = stamp (targets r ! d)) \<and>
         (\<forall>d s w'. Exec d s w' \<in> set (calls (update_target ext stamps r w tid)) \<longrightarrow>
            0 < s \<and> d < ntarget r \<and>
            fact_stamps (targets (res (update_target ext stamps r w tid)) ! d)
              = refreshed ext w' (targets r ! d))"
proof -
  let ?q = "update_target ext stamps r w tid"
  let ?p = "update_pass ext r (snd (start_transaction ext w)) tid"
  have ie: "list_all is_exec (calls ?p)" by (rule update_pass_is_exec)
  have nc: "TxCommit True \<notin> set (calls ?p)" using is_exec_no_tx [OF ie, where b = True] by simp
  have fr: "frame r (res ?p)" by (rule update_pass_frame)
  have inv: "refreshed_so_far ext r ?p" by (rule update_pass_refreshed [OF t bnd dist])
  show ?thesis
  proof (cases rule: update_target_cases [where ext = ext and stamps = stamps and r = r and w = w and tid = tid])
    case no_tx
    with cm show ?thesis by simp
  next
    case (rolled_back tx)
    with cm nc show ?thesis by simp
  next
    case (commit_failed tx)
    with cm nc show ?thesis by simp
  next
    case (committed tx)
    have a: "\<forall>d < ntarget r. stamp (targets (res ?q) ! d) = stamp (targets r ! d)"
      using frame_stamp [OF fr] by (simp add: committed(4))
    have b: "0 < s \<and> d < ntarget r \<and> fact_stamps (targets (res ?q) ! d) = refreshed ext w' (targets r ! d)"
      if "Exec d s w' \<in> set (calls ?q)" for d s w'
    proof -
      from that have ev: "Exec d s w' \<in> set (calls ?p)" by (simp add: committed(4))
      with committed(2) have pos: "0 < s" by (auto simp: failed_iff not_le)
      from inv ev have dn: "d < ntarget r" unfolding refreshed_so_far_def ntarget_def by blast
      from inv ev pos have "targets (res ?p) ! d
          = (targets r ! d)\<lparr>fact_stamps := refreshed ext w' (targets r ! d)\<rparr>"
        unfolding refreshed_so_far_def by blast
      then have "fact_stamps (targets (res ?p) ! d) = refreshed ext w' (targets r ! d)" by simp
      with pos dn show ?thesis by (simp add: committed(4))
    qed
    from a b show ?thesis by blast
  qed
qed

theorem commit_refreshes_fact_stamps_witness:
  "1 < ntarget (demo_resolver [0] ''bump'' [0, 0] ''fine'') \<and>
   update_targets (targets (demo_resolver [0] ''bump'' [0, 0] ''fine'') ! 1) = [0, 1] \<and>
   ntarget (demo_resolver [0] ''bump'' [0, 0] ''fine'') = 2 \<and>
   calls (update_target (demo_extern True) (\<lambda>_. 0)
      (demo_resolver [0] ''bump'' [0, 0] ''fine'') [1, 1] 1)
     = [TxStart (Some 7), Exec 0 1 [2, 2], Exec 1 2 [2, 2], TxCommit True] \<and>
   fact_stamps (targets (res (update_target (demo_extern True) (\<lambda>_. 0)
      (demo_resolver [0] ''bump'' [0, 0] ''fine'') [1, 1] 1)) ! 0)
     = refreshed (demo_extern True) [2, 2] (targets (demo_resolver [0] ''bump'' [0, 0] ''fine'') ! 0) \<and>
   fact_stamps (targets (res (update_target (demo_extern True) (\<lambda>_. 0)
      (demo_resolver [0] ''bump'' [0, 0] ''fine'') [1, 1] 1)) ! 1)
     = refreshed (demo_extern True) [2, 2] (targets (demo_resolver [0] ''bump'' [0, 0] ''fine'') ! 1) \<and>
   stamp (targets (res (update_target (demo_extern True) (\<lambda>_. 0)
      (demo_resolver [0] ''bump'' [0, 0] ''fine'') [1, 1] 1)) ! 1)
     = stamp (targets (demo_resolver [0] ''bump'' [0, 0] ''fine'') ! 1)"
proof -
  let ?r = "demo_resolver [0] ''bump'' [0, 0] ''fine''"
  let ?q = "update_target (demo_extern True) (\<lambda>_. 0) ?r [1, 1] 1"
  have n: "ntarget ?r = 2" by (simp add: demo_resolver_def ntarget_def)
  then have a: "1 < ntarget ?r" by simp
  have u: "update_targets (targets ?r ! 1) = [0, 1]"
    by (simp add: demo_resolver_def demo_target_def)
  from u n have b: "\<forall>e \<in> set (update_targets (targets ?r ! 1)). e < ntarget ?r"
    by simp
  from u have c: "distinct (update_targets (targets ?r ! 1))"
    by simp
  have d: "calls ?q = [TxStart (Some 7), Exec 0 1 [2, 2], Exec 1 2 [2, 2], TxCommit True]"
    by (simp add: demo_defs)
  then have e: "TxCommit True \<in> set (calls ?q)" by simp
  from d have f: "Exec 0 1 [2, 2] \<in> set (calls ?q)" "Exec 1 2 [2, 2] \<in> set (calls ?q)"
    by simp_all
  from commit_refreshes_fact_stamps [OF a b c e] a f
  have "fact_stamps (targets (res ?q) ! 0) = refreshed (demo_extern True) [2, 2] (targets ?r ! 0)"
       "fact_stamps (targets (res ?q) ! 1) = refreshed (demo_extern True) [2, 2] (targets ?r ! 1)"
       "stamp (targets (res ?q) ! 1) = stamp (targets ?r ! 1)"
    by blast+
  with a u n d show ?thesis by simp
qed

text \<open>
  C4 as stated fails. The update of \<open>top\<close> runs the scripts of \<open>base\<close> and \<open>top\<close>, both
  with success, and is committed; the \<open>stamp\<close> of \<open>top\<close> is not above what it was.
\<close>

theorem own_stamp_not_bumped_counterexample:
  "calls (update_target (demo_extern True) (\<lambda>_. 0)
      (demo_resolver [0] ''bump'' [0, 0] ''fine'') [1, 1] 1)
     = [TxStart (Some 7), Exec 0 1 [2, 2], Exec 1 2 [2, 2], TxCommit True] \<and>
   \<not> stamp (targets (demo_resolver [0] ''bump'' [0, 0] ''fine'') ! 1)
       < stamp (targets (res (update_target (demo_extern True) (\<lambda>_. 0)
           (demo_resolver [0] ''bump'' [0, 0] ''fine'') [1, 1] 1)) ! 1)"
  by (simp add: demo_defs)

subsection \<open>The auto-update target of \<open>create_targets\<close>\<close>

lemma create_targets_loop_done:
  "create_targets_loop ce pau pts (r, au, e) = (True, r', au', e') \<Longrightarrow>
   map name (targets r') = map name (targets r) @ map pt_name pts \<and>
   auto_update r' = auto_update r \<and>
   (case pau of
      None \<Rightarrow> au' = au
    | Some nm \<Rightarrow>
        if nm \<in> pt_name ` set pts
        then int (length (targets r)) \<le> au' \<and> au' < int (length (targets r'))
             \<and> name (targets r' ! nat au') = nm
        else au' = au)"
proof (induction pts arbitrary: r au e)
  case Nil
  then show ?case by (auto split: option.splits)
next
  case (Cons pt pts)
  let ?t = "\<lparr>name = pt_name pt, depends = pt_depends pt, update_facts = None,
             update_targets = [], fact_stamps = [], script = None, stamp = 0\<rparr>"
  from Cons.prems obtain sco fs where
    r3: "create_targets_loop ce pau pts
           (r\<lparr>targets := targets r @ [?t\<lparr>script := sco\<rparr>], facts := fs\<rparr>,
            (case pau of None \<Rightarrow> au
             | Some nm \<Rightarrow> if nm = pt_name pt then int (ntarget r) else au), e)
         = (True, r', au', e')"
    by (auto simp: Let_def split: if_splits sum.splits option.splits prod.splits bool.splits)
  let ?r3 = "r\<lparr>targets := targets r @ [?t\<lparr>script := sco\<rparr>], facts := fs\<rparr>"
  note ih = Cons.IH [OF r3]
  from ih have names: "map name (targets r') = map name (targets r) @ pt_name pt # map pt_name pts"
    by simp
  from ih have au: "auto_update r' = auto_update r" by simp
  have len: "length (targets r') = length (targets r) + Suc (length pts)"
    using arg_cong [OF names, of length] by simp
  have at: "name (targets r' ! length (targets r)) = pt_name pt"
  proof -
    have "map name (targets r') ! length (targets r) = pt_name pt"
      by (simp add: names nth_append)
    with len show ?thesis by simp
  qed
  show ?case
  proof (cases pau)
    case None
    with ih names au show ?thesis by simp
  next
    case (Some nm)
    show ?thesis
    proof (cases "nm \<in> pt_name ` set pts")
      case True
      with ih Some names au show ?thesis by auto
    next
      case False
      with ih Some have au': "au' = (if nm = pt_name pt then int (ntarget r) else au)"
        by simp
      show ?thesis
      proof (cases "nm = pt_name pt")
        case True
        with au' at len names au Some show ?thesis by (simp add: ntarget_def)
      next
        case ne: False
        with au' False names au Some show ?thesis by simp
      qed
    qed
  qed
qed

text \<open>
  C6. If an auto-update name was given and no parsed target carries it,
  \<open>create_targets\<close> returns \<open>-1\<close>, and with \<open>errno = ENOENT\<close> when the targets
  themselves were all created. When they were all created, the created targets carry the
  parsed names in order; without an auto-update name the result is 0 and \<open>auto_update\<close>
  of the resolver is not written; with a name that a target carries the result is 0 and
  \<open>auto_update\<close> points to a target of that name.
\<close>

theorem create_targets_auto_update:
  "(\<forall>nm. parser_auto_update parser = Some nm \<and> nm \<notin> pt_name ` set (parser_targets parser) \<longrightarrow>
      fst (create_targets ce parser r e) = - 1 \<and>
      (materialized ce parser r e \<longrightarrow> snd (snd (create_targets ce parser r e)) = ENOENT)) \<and>
   (materialized ce parser r e \<longrightarrow>
      map name (targets (fst (snd (create_targets ce parser r e))))
        = map pt_name (parser_targets parser) \<and>
      (parser_auto_update parser = None \<longrightarrow>
         fst (create_targets ce parser r e) = 0 \<and>
         auto_update (fst (snd (create_targets ce parser r e))) = auto_update r) \<and>
      (\<forall>nm. parser_auto_update parser = Some nm \<and> nm \<in> pt_name ` set (parser_targets parser) \<longrightarrow>
         fst (create_targets ce parser r e) = 0 \<and>
         (\<exists>i < ntarget (fst (snd (create_targets ce parser r e))).
            auto_update (fst (snd (create_targets ce parser r e))) = Some i \<and>
            name (targets (fst (snd (create_targets ce parser r e))) ! i) = nm)))"
proof -
  obtain ok r' au' e' where lp:
    "create_targets_loop ce (parser_auto_update parser) (parser_targets parser)
       (r\<lparr>targets := []\<rparr>, - 1, e) = (ok, r', au', e')"
    by (cases "create_targets_loop ce (parser_auto_update parser) (parser_targets parser)
       (r\<lparr>targets := []\<rparr>, - 1, e)") auto
  have m: "materialized ce parser r e = ok" by (simp add: materialized_def lp)
  show ?thesis
  proof (cases ok)
    case False
    with lp have "create_targets ce parser r e = (- 1, r', e')"
      by (simp add: create_targets_def)
    with m False show ?thesis by simp
  next
    case True
    with lp have lp': "create_targets_loop ce (parser_auto_update parser) (parser_targets parser)
       (r\<lparr>targets := []\<rparr>, - 1, e) = (True, r', au', e')" by simp
    from create_targets_loop_done [OF lp']
    have names: "map name (targets r') = map pt_name (parser_targets parser)"
      and au: "auto_update r' = auto_update r"
      and idx: "(case parser_auto_update parser of
          None \<Rightarrow> au' = - 1
        | Some nm \<Rightarrow>
            if nm \<in> pt_name ` set (parser_targets parser)
            then 0 \<le> au' \<and> au' < int (length (targets r')) \<and> name (targets r' ! nat au') = nm
            else au' = - 1)"
      by (auto split: option.splits)
    show ?thesis
    proof (cases "parser_auto_update parser")
      case None
      with idx lp True have "create_targets ce parser r e = (0, r', e')"
        by (simp add: create_targets_def)
      with None names au show ?thesis by simp
    next
      case (Some nm)
      show ?thesis
      proof (cases "nm \<in> pt_name ` set (parser_targets parser)")
        case no: False
        with idx Some lp True have "create_targets ce parser r e = (- 1, r', ENOENT)"
          by (simp add: create_targets_def)
        with no Some names show ?thesis by simp
      next
        case yes: True
        with idx Some have i: "0 \<le> au'" "nat au' < length (targets r')"
          "name (targets r' ! nat au') = nm" by auto
        have "\<exists>i < ntarget (r'\<lparr>auto_update := Some (nat au')\<rparr>).
                auto_update (r'\<lparr>auto_update := Some (nat au')\<rparr>) = Some i \<and>
                name (targets (r'\<lparr>auto_update := Some (nat au')\<rparr>) ! i) = nm"
          using i by (intro exI [of _ "nat au'"]) (simp add: ntarget_def)
        moreover from i lp True
        have "create_targets ce parser r e = (0, r'\<lparr>auto_update := Some (nat au')\<rparr>, e')"
          by (simp add: create_targets_def)
        ultimately show ?thesis using yes Some names by simp
      qed
    qed
  qed
qed

theorem create_targets_auto_update_witness:
  "parser_auto_update (demo_parser (Some ''nope'')) = Some ''nope'' \<and>
   ''nope'' \<notin> pt_name ` set (parser_targets (demo_parser (Some ''nope''))) \<and>
   materialized demo_create_env (demo_parser (Some ''nope'')) empty_resolver 0 \<and>
   fst (create_targets demo_create_env (demo_parser (Some ''nope'')) empty_resolver 0) = - 1 \<and>
   snd (snd (create_targets demo_create_env (demo_parser (Some ''nope'')) empty_resolver 0)) = ENOENT \<and>
   parser_auto_update (demo_parser None) = None \<and>
   materialized demo_create_env (demo_parser None) empty_resolver 0 \<and>
   fst (create_targets demo_create_env (demo_parser None) empty_resolver 0) = 0 \<and>
   auto_update (fst (snd (create_targets demo_create_env (demo_parser None) empty_resolver 0)))
     = auto_update empty_resolver \<and>
   parser_auto_update (demo_parser (Some ''top'')) = Some ''top'' \<and>
   ''top'' \<in> pt_name ` set (parser_targets (demo_parser (Some ''top''))) \<and>
   materialized demo_create_env (demo_parser (Some ''top'')) empty_resolver 0 \<and>
   fst (create_targets demo_create_env (demo_parser (Some ''top'')) empty_resolver 0) = 0 \<and>
   (\<exists>i < ntarget (fst (snd (create_targets demo_create_env (demo_parser (Some ''top''))
                              empty_resolver 0))).
      auto_update (fst (snd (create_targets demo_create_env (demo_parser (Some ''top''))
                               empty_resolver 0))) = Some i \<and>
      name (targets (fst (snd (create_targets demo_create_env (demo_parser (Some ''top''))
                                 empty_resolver 0))) ! i) = ''top'')"
proof -
  have m: "materialized demo_create_env (demo_parser au) empty_resolver 0" for au
    by (cases au)
       (simp_all add: materialized_def demo_create_env_def demo_parser_def empty_resolver_def
          ntarget_def Let_def)
  have a: "parser_auto_update (demo_parser au) = au" for au
    by (simp add: demo_parser_def)
  have b: "''nope'' \<notin> pt_name ` set (parser_targets (demo_parser (Some ''nope'')))"
    by (simp add: demo_parser_def)
  have c: "''top'' \<in> pt_name ` set (parser_targets (demo_parser (Some ''top'')))"
    by (simp add: demo_parser_def)
  from create_targets_auto_update
         [of "demo_parser (Some ''nope'')" demo_create_env empty_resolver 0]
       a [of "Some ''nope''"] b m [of "Some ''nope''"]
  have n: "fst (create_targets demo_create_env (demo_parser (Some ''nope'')) empty_resolver 0) = - 1 \<and>
    snd (snd (create_targets demo_create_env (demo_parser (Some ''nope'')) empty_resolver 0)) = ENOENT"
    by blast
  from create_targets_auto_update
         [of "demo_parser None" demo_create_env empty_resolver 0] a [of None] m [of None]
  have z: "fst (create_targets demo_create_env (demo_parser None) empty_resolver 0) = 0 \<and>
    auto_update (fst (snd (create_targets demo_create_env (demo_parser None) empty_resolver 0)))
      = auto_update empty_resolver"
    by blast
  from create_targets_auto_update
         [of "demo_parser (Some ''top'')" demo_create_env empty_resolver 0]
       a [of "Some ''top''"] c m [of "Some ''top''"]
  have t: "fst (create_targets demo_create_env (demo_parser (Some ''top'')) empty_resolver 0) = 0 \<and>
   (\<exists>i < ntarget (fst (snd (create_targets demo_create_env (demo_parser (Some ''top''))
                              empty_resolver 0))).
      auto_update (fst (snd (create_targets demo_create_env (demo_parser (Some ''top''))
                               empty_resolver 0))) = Some i \<and>
      name (targets (fst (snd (create_targets demo_create_env (demo_parser (Some ''top''))
                                 empty_resolver 0))) ! i) = ''top'')"
    by blast
  from a [of "Some ''nope''"] a [of None] a [of "Some ''top''"] b c
       m [of "Some ''nope''"] m [of None] m [of "Some ''top''"] n z t
  show ?thesis by blast
qed

end
